theory Spec2Isabelle
  imports Main "HOL-Library.Word" "HOL-Library.Code_Target_Numeral"
begin

section \<open>Overview\<close>

text \<open>
  A model of \<open>native-host/native_host.py\<close>, the native messaging host that relays
  messages between a browser extension and the HTTP server of an editor extension.
  The functions of the source are \<open>read_message\<close>, \<open>send_message\<close>,
  \<open>get_vscode_port\<close>, \<open>forward_to_vscode\<close> and \<open>main\<close>, with the \<open>__main__\<close>
  block as \<open>run\<close>. What they call in the Python library is modelled from the
  behaviour of the library: \<open>json.dumps\<close> and \<open>json.loads\<close> with their defaults,
  \<open>struct.pack\<close> and \<open>struct.unpack\<close> with the format \<open>@I\<close>, the UTF-8 codec,
  \<open>str\<close> and \<open>repr\<close>, and the exceptions and the \<open>ok\<close> property of
  \<open>requests\<close>. Standard input is a finite sequence of bytes; the port file and the
  answers of the HTTP server are given by the environment. Two limits of the interpreter
  are part of the model, because \<open>json\<close> raises when they are exceeded: the limit on
  the number of digits in the conversion between \<open>int\<close> and \<open>str\<close>, and the
  recursion limit, which bounds the nesting of the arrays and objects that \<open>json\<close>
  writes or reads. Logging has no effect on the results and is left out, and so is the
  set-up of the log file when the module is loaded.
\<close>

section \<open>Python values\<close>

text \<open>
  A Python \<open>str\<close> is a sequence of Unicode code points (lone surrogates included), a
  \<open>bytes\<close> object a sequence of octets. Source literals are written with \<open>lit\<close>.
\<close>

type_synonym pystr = "nat list"
type_synonym bytes = "8 word list"

definition lit :: "string \<Rightarrow> pystr" where
  "lit s = map of_char s"

text \<open>
  Floating point is outside the embedding. A float is carried by the text of its
  \<open>repr\<close>, which is all the program ever does with one (print it, test it against
  zero); the conversion from a decimal literal to a float is a parameter of the platform.
\<close>

datatype pyfloat = FNaN | FInf | FNegInf | FFinite pystr

text \<open>
  The values \<open>json.loads\<close> produces and \<open>json.dumps\<close> accepts. A \<open>dict\<close> keeps
  insertion order, so it is an association list; its keys are distinct (see \<open>wf_value\<close>).
\<close>

datatype pyval =
    PNone
  | PBool bool
  | PInt int
  | PFloat pyfloat
  | PStr pystr
  | PList "pyval list"
  | PDict "(pystr \<times> pyval) list"

type_synonym dict = "(pystr \<times> pyval) list"

text \<open>
  \<open>d.get(key, default)\<close>, \<open>d[key] = value\<close>, \<open>dict(pairs)\<close> and the display
  \<open>{**d, **e}\<close>.
\<close>

definition dict_get :: "dict \<Rightarrow> pystr \<Rightarrow> pyval \<Rightarrow> pyval" where
  "dict_get d k dflt = (case map_of d k of Some v \<Rightarrow> v | None \<Rightarrow> dflt)"

fun dict_set :: "dict \<Rightarrow> pystr \<Rightarrow> pyval \<Rightarrow> dict" where
  "dict_set [] k v = [(k, v)]"
| "dict_set ((k', v') # d) k v =
     (if k' = k then (k, v) # d else (k', v') # dict_set d k v)"

definition dict_merge :: "dict \<Rightarrow> (pystr \<times> pyval) list \<Rightarrow> dict" where
  "dict_merge d e = foldl (\<lambda>a (k, v). dict_set a k v) d e"

definition dict_of_pairs :: "(pystr \<times> pyval) list \<Rightarrow> dict" where
  "dict_of_pairs ps = dict_merge [] ps"

text \<open>Truth value testing (\<open>not message\<close>).\<close>

fun truthy :: "pyval \<Rightarrow> bool" where
  "truthy PNone = False"
| "truthy (PBool b) = b"
| "truthy (PInt i) = (i \<noteq> 0)"
| "truthy (PFloat f) = (f \<noteq> FFinite (lit ''0.0'') \<and> f \<noteq> FFinite (lit ''-0.0''))"
| "truthy (PStr s) = (s \<noteq> [])"
| "truthy (PList xs) = (xs \<noteq> [])"
| "truthy (PDict d) = (d \<noteq> [])"

section \<open>The platform\<close>

text \<open>
  What the interpreter and the machine fix, and the source does not: the byte order of
  \<open>struct\<close>'s native format \<open>@I\<close>, the conversion \<open>float(literal)\<close> that
  \<open>json\<close> applies to a number with a fraction or an exponent, \<open>str.isprintable\<close>
  on a code point outside ASCII (the Unicode tables behind \<open>repr\<close>), the message
  of the exception that parsing a text as JSON raises, and two limits of the interpreter.

  \<^item> \<open>int_max_str_digits\<close> is \<open>sys.get_int_max_str_digits()\<close>: 0 for no limit,
    4300 by default. The conversion of an \<open>int\<close> to its decimal text, and of a decimal
    text to an \<open>int\<close>, raises \<open>ValueError\<close> when the number has more digits than
    the limit; the interpreter never applies a limit below 640.
  \<^item> \<open>json_room\<close> is what the recursion limit leaves at each call of \<open>json\<close>.
    The encoder and the decoder of \<open>json\<close> enter one level of recursion for every
    array or object they open, the empty ones included, and none for a number, a string or
    a constant; \<open>RecursionError\<close> is raised when no level is left. How many levels
    are left depends on the frames that are on the stack at the call, so it is given for
    each call by its path: \<open>json.dumps\<close> in \<open>send_message\<close> and \<open>json.loads\<close> in
    \<open>read_message\<close>, both called from \<open>main\<close> only; \<open>json.load\<close> in
    \<open>get_vscode_port\<close>, which is called from \<open>main\<close> and, one frame deeper, from
    \<open>forward_to_vscode\<close>; and \<open>response.json()\<close> in \<open>forward_to_vscode\<close>.
    \<open>json_room P c\<close> is the number of levels left at the call \<open>c\<close> after the
    first, so that a text whose arrays and objects are nested at most
    \<open>Suc (json_room P c)\<close> deep is within the limit. The first level is taken as always
    available: with the default limit of 1000 about 990 levels are left at each call.
\<close>

datatype endian = LittleEndian | BigEndian

datatype caller = FromMain | FromForward

datatype site = SendMessage | ReadMessage | GetPort caller | ResponseJson

record platform =
  byteorder :: endian
  float_of_literal :: "pystr \<Rightarrow> pyfloat"
  isprintable :: "nat \<Rightarrow> bool"
  json_error_text :: "pystr \<Rightarrow> pystr"
  int_max_str_digits :: nat
  json_room :: "site \<Rightarrow> nat"

definition too_many_digits :: "platform \<Rightarrow> nat \<Rightarrow> bool" where
  "too_many_digits P n = (int_max_str_digits P \<noteq> 0 \<and> max 640 (int_max_str_digits P) < n)"

section \<open>Text of numbers\<close>

fun digits_of_nat :: "nat \<Rightarrow> pystr" where
  "digits_of_nat n = (if n < 10 then [48 + n] else digits_of_nat (n div 10) @ [48 + n mod 10])"

declare digits_of_nat.simps [simp del]

definition int_repr :: "int \<Rightarrow> pystr" where
  "int_repr i = (if i < 0 then 45 # digits_of_nat (nat (- i)) else digits_of_nat (nat i))"

definition float_repr :: "pyfloat \<Rightarrow> pystr" where
  "float_repr f = (case f of FNaN \<Rightarrow> lit ''nan'' | FInf \<Rightarrow> lit ''inf''
     | FNegInf \<Rightarrow> lit ''-inf'' | FFinite r \<Rightarrow> r)"

definition hex_digit :: "nat \<Rightarrow> nat" where
  "hex_digit d = (if d < 10 then 48 + d else 87 + d)"

text \<open>\<open>'{0:04x}'.format(n)\<close> for \<open>n < 0x10000\<close>, and the two-digit \<open>{:02x}\<close>.\<close>

definition hex4 :: "nat \<Rightarrow> pystr" where
  "hex4 n = [hex_digit (n div 4096 mod 16), hex_digit (n div 256 mod 16),
             hex_digit (n div 16 mod 16), hex_digit (n mod 16)]"

definition hex2 :: "nat \<Rightarrow> pystr" where
  "hex2 n = [hex_digit (n div 16 mod 16), hex_digit (n mod 16)]"

fun join :: "pystr \<Rightarrow> pystr list \<Rightarrow> pystr" where
  "join sep [] = []"
| "join sep [x] = x"
| "join sep (x # y # ys) = x @ sep @ join sep (y # ys)"

section \<open>The \<open>json\<close> module: serialisation\<close>

text \<open>
  \<open>json.dumps\<close> with its defaults: \<open>ensure_ascii=True\<close>, separators \<open>', '\<close> and
  \<open>': '\<close>, \<open>allow_nan=True\<close>. Every character outside \<open>' '..'~'\<close>, and the quote and
  the backslash, is escaped; a code point above the basic plane becomes a surrogate pair.
  \<open>json_text\<close> is the text of a value; \<open>json_dumps\<close> below returns it when the
  value is within the limits of the interpreter, and raises otherwise.
\<close>

definition json_escape_char :: "nat \<Rightarrow> pystr" where
  "json_escape_char c =
    (if c = 92 then [92, 92]
     else if c = 34 then [92, 34]
     else if 32 \<le> c \<and> c \<le> 126 then [c]
     else if c = 8 then [92, 98]
     else if c = 12 then [92, 102]
     else if c = 10 then [92, 110]
     else if c = 13 then [92, 114]
     else if c = 9 then [92, 116]
     else if c < 65536 then [92, 117] @ hex4 c
     else [92, 117] @ hex4 (55296 + (c - 65536) div 1024 mod 1024)
        @ [92, 117] @ hex4 (56320 + (c - 65536) mod 1024))"

definition json_encode_string :: "pystr \<Rightarrow> pystr" where
  "json_encode_string s = [34] @ concat (map json_escape_char s) @ [34]"

definition json_float :: "pyfloat \<Rightarrow> pystr" where
  "json_float f = (case f of FNaN \<Rightarrow> lit ''NaN'' | FInf \<Rightarrow> lit ''Infinity''
     | FNegInf \<Rightarrow> lit ''-Infinity'' | FFinite r \<Rightarrow> r)"

fun json_text :: "pyval \<Rightarrow> pystr" where
  "json_text PNone = lit ''null''"
| "json_text (PBool b) = (if b then lit ''true'' else lit ''false'')"
| "json_text (PInt i) = int_repr i"
| "json_text (PFloat f) = json_float f"
| "json_text (PStr s) = json_encode_string s"
| "json_text (PList xs) = [91] @ join (lit '', '') (map json_text xs) @ [93]"
| "json_text (PDict d) =
     [123] @ join (lit '', '')
       (map (\<lambda>kv. json_encode_string (fst kv) @ lit '': '' @ json_text (snd kv)) d) @ [125]"

text \<open>
  The nesting depth of a value (a number, a string or a constant has depth 0, an array
  or an object one more than the deepest of its items, so 1 when it is empty) and the
  integers in it. The keys of an object are strings and add nothing to either.
\<close>

fun depth :: "pyval \<Rightarrow> nat" where
  "depth (PList xs) = Suc (foldr max (map depth xs) 0)"
| "depth (PDict d) = Suc (foldr max (map (\<lambda>kv. depth (snd kv)) d) 0)"
| "depth v = 0"

fun ints_of :: "pyval \<Rightarrow> int list" where
  "ints_of (PInt i) = [i]"
| "ints_of (PList xs) = concat (map ints_of xs)"
| "ints_of (PDict d) = concat (map (\<lambda>kv. ints_of (snd kv)) d)"
| "ints_of v = []"

definition int_digits :: "int \<Rightarrow> nat" where
  "int_digits i = length (digits_of_nat (nat \<bar>i\<bar>))"

text \<open>
  A value fits \<open>n\<close> levels of recursion when it is nested at most \<open>n\<close> deep and
  every integer in it has a number of digits that the interpreter converts. It is within
  the limits at the call \<open>c\<close> when it fits the levels that are left there.
\<close>

definition fits :: "platform \<Rightarrow> nat \<Rightarrow> pyval \<Rightarrow> bool" where
  "fits P n v =
     (depth v \<le> n \<and> (\<forall>i \<in> set (ints_of v). \<not> too_many_digits P (int_digits i)))"

definition within_limits :: "platform \<Rightarrow> site \<Rightarrow> pyval \<Rightarrow> bool" where
  "within_limits P c v = fits P (Suc (json_room P c)) v"

text \<open>
  \<open>json.dumps(v)\<close> at the call \<open>c\<close>: \<open>None\<close> when it raises, that is
  \<open>RecursionError\<close> for a value nested too deep and \<open>ValueError\<close> for an integer
  with too many digits.
\<close>

definition json_dumps :: "platform \<Rightarrow> site \<Rightarrow> pyval \<Rightarrow> pystr option" where
  "json_dumps P c v = (if within_limits P c v then Some (json_text v) else None)"

section \<open>The \<open>json\<close> module: parsing\<close>

text \<open>
  \<open>json.loads\<close> with its defaults, after the scanner of the module: \<open>scanstring\<close>
  for string literals, the number pattern (an optional minus sign, then \<open>0\<close> or a
  digit sequence without leading zero, an optional fraction, an optional exponent),
  \<open>scan_once\<close>, \<open>JSONArray\<close> and \<open>JSONObject\<close>. Every exception out of the module
  is \<open>None\<close> here: \<open>JSONDecodeError\<close> for a text that is not JSON,
  \<open>ValueError\<close> for an integer literal with more digits than the interpreter converts,
  \<open>RecursionError\<close> for arrays and objects nested deeper than the recursion limit
  allows. The argument \<open>n\<close> of \<open>scan_once\<close> is the number of levels of
  recursion that are left: an opening bracket or brace needs one, also when the array or
  object is empty, and the items inside are scanned with \<open>n - 1\<close>. In
  \<open>parse_array\<close> and \<open>parse_object\<close>, which scan the items, \<open>n\<close> is what is
  left for an item. The tests \<open>length s < length r\<close> in \<open>parse_array\<close> and
  \<open>parse_object\<close> are not in the module: they never fail (\<open>parse_array_plain\<close>,
  \<open>parse_object_value_plain\<close> below).
\<close>

definition is_ws :: "nat \<Rightarrow> bool" where
  "is_ws c = (c = 32 \<or> c = 9 \<or> c = 10 \<or> c = 13)"

definition skip_ws :: "pystr \<Rightarrow> pystr" where
  "skip_ws s = dropWhile is_ws s"

definition is_digit :: "nat \<Rightarrow> bool" where
  "is_digit c = (48 \<le> c \<and> c \<le> 57)"

definition hex_value :: "nat \<Rightarrow> nat option" where
  "hex_value c =
    (if 48 \<le> c \<and> c \<le> 57 then Some (c - 48)
     else if 97 \<le> c \<and> c \<le> 102 then Some (c - 87)
     else if 65 \<le> c \<and> c \<le> 70 then Some (c - 55)
     else None)"

definition decode_uXXXX :: "pystr \<Rightarrow> nat option" where
  "decode_uXXXX s =
    (case s of
       a # b # c # d # _ \<Rightarrow>
         (case (hex_value a, hex_value b, hex_value c, hex_value d) of
            (Some x3, Some x2, Some x1, Some x0) \<Rightarrow> Some (4096 * x3 + 256 * x2 + 16 * x1 + x0)
          | _ \<Rightarrow> None)
     | _ \<Rightarrow> None)"

definition backslash :: "nat \<Rightarrow> nat option" where
  "backslash c =
    (if c = 34 then Some 34 else if c = 92 then Some 92 else if c = 47 then Some 47
     else if c = 98 then Some 8 else if c = 102 then Some 12 else if c = 110 then Some 10
     else if c = 114 then Some 13 else if c = 116 then Some 9 else None)"

definition prepend :: "nat \<Rightarrow> (pystr \<times> pystr) option \<Rightarrow> (pystr \<times> pystr) option" where
  "prepend c r = (case r of None \<Rightarrow> None | Some (cs, rest) \<Rightarrow> Some (c # cs, rest))"

function scanstring :: "pystr \<Rightarrow> (pystr \<times> pystr) option" where
  "scanstring s =
    (case s of
       [] \<Rightarrow> None
     | c # t \<Rightarrow>
         if c = 34 then Some ([], t)
         else if c < 32 then None
         else if c \<noteq> 92 then prepend c (scanstring t)
         else (case t of
                 [] \<Rightarrow> None
               | esc # t1 \<Rightarrow>
                   if esc \<noteq> 117 then
                     (case backslash esc of
                        None \<Rightarrow> None
                      | Some ch \<Rightarrow> prepend ch (scanstring t1))
                   else
                     (case decode_uXXXX t1 of
                        None \<Rightarrow> None
                      | Some uni \<Rightarrow>
                          if 55296 \<le> uni \<and> uni \<le> 56319 \<and> take 2 (drop 4 t1) = [92, 117] then
                            (case decode_uXXXX (drop 6 t1) of
                               None \<Rightarrow> None
                             | Some uni2 \<Rightarrow>
                                 if 56320 \<le> uni2 \<and> uni2 \<le> 57343 then
                                   prepend (65536 + ((uni - 55296) * 1024 + (uni2 - 56320)))
                                     (scanstring (drop 10 t1))
                                 else prepend uni (scanstring (drop 4 t1)))
                          else prepend uni (scanstring (drop 4 t1)))))"
  by pat_completeness auto
termination
  apply (relation "measure length")
  apply simp_all
  done

declare scanstring.simps [simp del]

definition nat_of_digits :: "pystr \<Rightarrow> nat" where
  "nat_of_digits ds = foldl (\<lambda>a d. 10 * a + (d - 48)) 0 ds"

definition int_of_literal :: "pystr \<Rightarrow> int" where
  "int_of_literal s =
    (case s of
       [] \<Rightarrow> 0
     | c # t \<Rightarrow> if c = 45 then - int (nat_of_digits t) else int (nat_of_digits s))"

definition match_sign :: "pystr \<Rightarrow> pystr \<times> pystr" where
  "match_sign s =
    (case s of [] \<Rightarrow> ([], s) | c # t \<Rightarrow> if c = 45 then ([45], t) else ([], s))"

definition match_int :: "pystr \<Rightarrow> (pystr \<times> pystr) option" where
  "match_int s =
    (case s of
       [] \<Rightarrow> None
     | c # t \<Rightarrow>
         if \<not> is_digit c then None
         else if c = 48 then Some ([48], t)
         else Some (takeWhile is_digit s, dropWhile is_digit s))"

definition match_frac :: "pystr \<Rightarrow> pystr \<times> pystr" where
  "match_frac s =
    (case s of
       [] \<Rightarrow> ([], s)
     | d # t \<Rightarrow>
         if d = 46 \<and> takeWhile is_digit t \<noteq> []
         then (46 # takeWhile is_digit t, dropWhile is_digit t)
         else ([], s))"

definition match_exp_sign :: "pystr \<Rightarrow> pystr \<times> pystr" where
  "match_exp_sign s =
    (case s of [] \<Rightarrow> ([], s) | g # t \<Rightarrow> if g = 45 \<or> g = 43 then ([g], t) else ([], s))"

definition match_exp :: "pystr \<Rightarrow> pystr \<times> pystr" where
  "match_exp s =
    (case s of
       [] \<Rightarrow> ([], s)
     | e # t \<Rightarrow>
         if e = 101 \<or> e = 69 then
           (case match_exp_sign t of
              (sg, t') \<Rightarrow>
                if takeWhile is_digit t' \<noteq> []
                then (e # sg @ takeWhile is_digit t', dropWhile is_digit t')
                else ([], s))
         else ([], s))"

definition match_number :: "pystr \<Rightarrow> (pystr \<times> pystr \<times> pystr \<times> pystr) option" where
  "match_number s =
    (case match_sign s of
       (sign, s1) \<Rightarrow>
         (case match_int s1 of
            None \<Rightarrow> None
          | Some (digs, s2) \<Rightarrow>
              (case match_frac s2 of
                 (frac, s3) \<Rightarrow>
                   (case match_exp s3 of
                      (ex, s4) \<Rightarrow> Some (sign @ digs, frac, ex, s4)))))"

lemma scanstring_length: "scanstring s = Some (x, r) \<Longrightarrow> length r < length s"
proof (induction s arbitrary: x r rule: scanstring.induct)
  case (1 s)
  show ?case
    using "1.prems" "1.IH"
    apply (subst (asm) scanstring.simps)
    apply (auto split: list.splits if_splits option.splits simp: prepend_def)
    apply fastforce+
    done
qed

lemma skip_ws_length: "length (skip_ws s) \<le> length s"
  by (simp add: skip_ws_def length_dropWhile_le)

lemma skip_ws_Cons_length: "skip_ws s = c # t \<Longrightarrow> length t < length s"
  using skip_ws_length [of s] by simp

lemma skip_ws_less: "length t < n \<Longrightarrow> length (skip_ws t) < n"
  using skip_ws_length [of t] by linarith

definition scan_atom :: "platform \<Rightarrow> pystr \<Rightarrow> (pyval \<times> pystr) option" where
  "scan_atom P s =
    (if take 4 s = lit ''null'' then Some (PNone, drop 4 s)
     else if take 4 s = lit ''true'' then Some (PBool True, drop 4 s)
     else if take 5 s = lit ''false'' then Some (PBool False, drop 5 s)
     else
       (case match_number s of
          Some (integer, frac, ex, r) \<Rightarrow>
            if frac \<noteq> [] \<or> ex \<noteq> []
            then Some (PFloat (float_of_literal P (integer @ frac @ ex)), r)
            else if too_many_digits P (length (filter is_digit integer)) then None
            else Some (PInt (int_of_literal integer), r)
        | None \<Rightarrow>
            if take 3 s = lit ''NaN'' then Some (PFloat FNaN, drop 3 s)
            else if take 8 s = lit ''Infinity'' then Some (PFloat FInf, drop 8 s)
            else if take 9 s = lit ''-Infinity'' then Some (PFloat FNegInf, drop 9 s)
            else None))"

function scan_once :: "platform \<Rightarrow> nat \<Rightarrow> pystr \<Rightarrow> (pyval \<times> pystr) option"
  and parse_array :: "platform \<Rightarrow> nat \<Rightarrow> pystr \<Rightarrow> (pyval list \<times> pystr) option"
  and parse_object :: "platform \<Rightarrow> nat \<Rightarrow> pystr \<Rightarrow> ((pystr \<times> pyval) list \<times> pystr) option"
where
  "scan_once P n s =
    (case s of
       [] \<Rightarrow> None
     | c # t \<Rightarrow>
         if c = 34 then
           (case scanstring t of None \<Rightarrow> None | Some (str, r) \<Rightarrow> Some (PStr str, r))
         else if c = 123 then
           (if n = 0 then None
            else
              (case skip_ws t of
                 [] \<Rightarrow> None
               | c' # t' \<Rightarrow>
                   if c' = 125 then Some (PDict [], t')
                   else if c' = 34 then
                     (case parse_object P (n - 1) t' of
                        None \<Rightarrow> None
                      | Some (pairs, r) \<Rightarrow> Some (PDict (dict_of_pairs pairs), r))
                   else None))
         else if c = 91 then
           (if n = 0 then None
            else
              (case skip_ws t of
                 [] \<Rightarrow> None
               | c' # t' \<Rightarrow>
                   if c' = 93 then Some (PList [], t')
                   else (case parse_array P (n - 1) (skip_ws t) of
                           None \<Rightarrow> None
                         | Some (values, r) \<Rightarrow> Some (PList values, r))))
         else scan_atom P s)"
| "parse_array P n s =
    (case scan_once P n s of
       None \<Rightarrow> None
     | Some (v, r) \<Rightarrow>
         if length s < length r then None
         else
           (case skip_ws r of
              [] \<Rightarrow> None
            | c # t \<Rightarrow>
                if c = 93 then Some ([v], t)
                else if c = 44 then
                  (case parse_array P n (skip_ws t) of
                     None \<Rightarrow> None
                   | Some (vs, r') \<Rightarrow> Some (v # vs, r'))
                else None))"
| "parse_object P n s =
    (case scanstring s of
       None \<Rightarrow> None
     | Some (key, r) \<Rightarrow>
         (case skip_ws r of
            [] \<Rightarrow> None
          | c # t \<Rightarrow>
              if c \<noteq> 58 then None
              else
                (case scan_once P n (skip_ws t) of
                   None \<Rightarrow> None
                 | Some (v, r2) \<Rightarrow>
                     if length s < length r2 then None
                     else
                       (case skip_ws r2 of
                          [] \<Rightarrow> None
                        | c2 # t2 \<Rightarrow>
                            if c2 = 125 then Some ([(key, v)], t2)
                            else if c2 = 44 then
                              (case skip_ws t2 of
                                 [] \<Rightarrow> None
                               | c3 # t3 \<Rightarrow>
                                   if c3 = 34 then
                                     (case parse_object P n t3 of
                                        None \<Rightarrow> None
                                      | Some (kvs, r') \<Rightarrow> Some ((key, v) # kvs, r'))
                                   else None)
                            else None))))"
  by pat_completeness auto
termination
proof (relation "measure (\<lambda>x. case x of
            Inl (P, n, s) \<Rightarrow> 2 * length s
          | Inr (Inl (P, n, s)) \<Rightarrow> 2 * length s + 1
          | Inr (Inr (P, n, s)) \<Rightarrow> 2 * length s + 1)", goal_cases)
  case 1
  show ?case by simp
next
  case (2 P n s c t c' t')
  then show ?case by (auto dest!: skip_ws_Cons_length)
next
  case (3 P n s c t c' t')
  then show ?case by (auto dest!: skip_ws_Cons_length)
next
  case (4 P n s)
  show ?case by simp
next
  case (5 P n s x v r c t)
  then show ?case by (auto dest!: skip_ws_Cons_length intro!: skip_ws_less)
next
  case (6 P n s x key r c t)
  then show ?case
    using skip_ws_length [of t] by (auto dest!: skip_ws_Cons_length scanstring_length)
next
  case (7 P n s x key r c t y v r2 c2 t2 c3 t3)
  then show ?case by (auto dest!: skip_ws_Cons_length)
qed

declare scan_once.simps [simp del] parse_array.simps [simp del] parse_object.simps [simp del]

text \<open>\<open>json.loads(s)\<close> at the call \<open>c\<close>.\<close>

definition json_loads :: "platform \<Rightarrow> site \<Rightarrow> pystr \<Rightarrow> pyval option" where
  "json_loads P c s =
    (case scan_once P (Suc (json_room P c)) (skip_ws s) of
       None \<Rightarrow> None
     | Some (obj, r) \<Rightarrow> if skip_ws r = [] then Some obj else None)"

section \<open>\<open>str\<close> and \<open>repr\<close>\<close>

text \<open>
  An f-string formats a value with \<open>str\<close>: a string is itself, any other value is its
  \<open>repr\<close>. The \<open>repr\<close> of a string picks the quote and escapes what is not printable.
  The program formats only values that \<open>json\<close> has read (the \<open>type\<close> of a
  message, the port and the endpoint) and the status of a response. What \<open>json\<close>
  has read is within the limit on digits, and \<open>json\<close> read it from a deeper frame,
  with fewer levels of recursion left than \<open>repr\<close> has where the value is formatted,
  so \<open>repr\<close> does not raise on it: \<open>py_repr\<close> is total.
\<close>

definition hex8 :: "nat \<Rightarrow> pystr" where
  "hex8 n = hex4 (n div 65536) @ hex4 (n mod 65536)"

definition repr_char :: "platform \<Rightarrow> nat \<Rightarrow> nat \<Rightarrow> pystr" where
  "repr_char P quote c =
    (if c = quote \<or> c = 92 then [92, c]
     else if c = 9 then [92, 116]
     else if c = 10 then [92, 110]
     else if c = 13 then [92, 114]
     else if c < 32 \<or> c = 127 then [92, 120] @ hex2 c
     else if c < 127 then [c]
     else if isprintable P c then [c]
     else if c < 256 then [92, 120] @ hex2 c
     else if c < 65536 then [92, 117] @ hex4 c
     else [92, 85] @ hex8 c)"

definition repr_str :: "platform \<Rightarrow> pystr \<Rightarrow> pystr" where
  "repr_str P s =
    (let quote = (if 39 \<in> set s \<and> 34 \<notin> set s then 34 else 39)
     in [quote] @ concat (map (repr_char P quote) s) @ [quote])"

fun py_repr :: "platform \<Rightarrow> pyval \<Rightarrow> pystr" where
  "py_repr P PNone = lit ''None''"
| "py_repr P (PBool b) = (if b then lit ''True'' else lit ''False'')"
| "py_repr P (PInt i) = int_repr i"
| "py_repr P (PFloat f) = float_repr f"
| "py_repr P (PStr s) = repr_str P s"
| "py_repr P (PList xs) = [91] @ join (lit '', '') (map (py_repr P) xs) @ [93]"
| "py_repr P (PDict d) =
     [123] @ join (lit '', '')
       (map (\<lambda>kv. repr_str P (fst kv) @ lit '': '' @ py_repr P (snd kv)) d) @ [125]"

definition py_str :: "platform \<Rightarrow> pyval \<Rightarrow> pystr" where
  "py_str P v = (case v of PStr s \<Rightarrow> s | _ \<Rightarrow> py_repr P v)"

definition type_name :: "pyval \<Rightarrow> pystr" where
  "type_name v =
    (case v of PNone \<Rightarrow> lit ''NoneType'' | PBool _ \<Rightarrow> lit ''bool'' | PInt _ \<Rightarrow> lit ''int''
     | PFloat _ \<Rightarrow> lit ''float'' | PStr _ \<Rightarrow> lit ''str'' | PList _ \<Rightarrow> lit ''list''
     | PDict _ \<Rightarrow> lit ''dict'')"

section \<open>UTF-8 and \<open>struct\<close>\<close>

text \<open>
  \<open>bytes.decode('utf-8')\<close> is strict: a stray or missing continuation byte, an overlong
  form, a surrogate or a value above \<open>0x10FFFF\<close> raises \<open>UnicodeDecodeError\<close>
  (\<open>None\<close>). \<open>str.encode('utf-8')\<close> raises on a surrogate.
\<close>

definition is_cont :: "nat \<Rightarrow> bool" where
  "is_cont c = (128 \<le> c \<and> c \<le> 191)"

definition prepend_cp :: "nat \<Rightarrow> pystr option \<Rightarrow> pystr option" where
  "prepend_cp c r = (case r of None \<Rightarrow> None | Some cs \<Rightarrow> Some (c # cs))"

function utf8_decode :: "bytes \<Rightarrow> pystr option" where
  "utf8_decode bs =
    (case bs of
       [] \<Rightarrow> Some []
     | b # t \<Rightarrow>
         if unat b < 128 then prepend_cp (unat b) (utf8_decode t)
         else if 194 \<le> unat b \<and> unat b \<le> 223 then
           (case map unat (take 1 t) of
              [c1] \<Rightarrow>
                if is_cont c1
                then prepend_cp ((unat b - 192) * 64 + (c1 - 128)) (utf8_decode (drop 1 t))
                else None
            | _ \<Rightarrow> None)
         else if 224 \<le> unat b \<and> unat b \<le> 239 then
           (case map unat (take 2 t) of
              [c1, c2] \<Rightarrow>
                if (if unat b = 224 then 160 else 128) \<le> c1
                   \<and> c1 \<le> (if unat b = 237 then 159 else 191) \<and> is_cont c2
                then prepend_cp ((unat b - 224) * 4096 + (c1 - 128) * 64 + (c2 - 128))
                       (utf8_decode (drop 2 t))
                else None
            | _ \<Rightarrow> None)
         else if 240 \<le> unat b \<and> unat b \<le> 244 then
           (case map unat (take 3 t) of
              [c1, c2, c3] \<Rightarrow>
                if (if unat b = 240 then 144 else 128) \<le> c1
                   \<and> c1 \<le> (if unat b = 244 then 143 else 191) \<and> is_cont c2 \<and> is_cont c3
                then prepend_cp ((unat b - 240) * 262144 + (c1 - 128) * 4096
                                  + (c2 - 128) * 64 + (c3 - 128))
                       (utf8_decode (drop 3 t))
                else None
            | _ \<Rightarrow> None)
         else None)"
  by pat_completeness auto
termination
  apply (relation "measure length")
  apply simp_all
  done

declare utf8_decode.simps [simp del]

definition utf8_encode_char :: "nat \<Rightarrow> bytes option" where
  "utf8_encode_char c =
    (if c < 128 then Some [of_nat c]
     else if c < 2048 then Some [of_nat (192 + c div 64), of_nat (128 + c mod 64)]
     else if 55296 \<le> c \<and> c \<le> 57343 then None
     else if c < 65536 then
       Some [of_nat (224 + c div 4096), of_nat (128 + c div 64 mod 64), of_nat (128 + c mod 64)]
     else if c < 1114112 then
       Some [of_nat (240 + c div 262144), of_nat (128 + c div 4096 mod 64),
             of_nat (128 + c div 64 mod 64), of_nat (128 + c mod 64)]
     else None)"

fun utf8_encode :: "pystr \<Rightarrow> bytes option" where
  "utf8_encode [] = Some []"
| "utf8_encode (c # cs) =
     (case utf8_encode_char c of
        None \<Rightarrow> None
      | Some bs \<Rightarrow> (case utf8_encode cs of None \<Rightarrow> None | Some r \<Rightarrow> Some (bs @ r)))"

text \<open>
  \<open>struct.pack('@I', n)\<close> is four bytes in the byte order of the machine and raises
  \<open>struct.error\<close> outside \<open>0 .. 2^32 - 1\<close>; \<open>struct.unpack('@I', raw)\<close> raises
  unless \<open>raw\<close> has exactly four bytes.
\<close>

definition struct_pack_I :: "platform \<Rightarrow> nat \<Rightarrow> bytes option" where
  "struct_pack_I P n =
    (if n < 2 ^ 32 then
       (let le = [of_nat (n mod 256), of_nat (n div 256 mod 256),
                  of_nat (n div 65536 mod 256), of_nat (n div 16777216 mod 256)]
        in Some (case byteorder P of LittleEndian \<Rightarrow> le | BigEndian \<Rightarrow> rev le))
     else None)"

definition struct_unpack_I :: "platform \<Rightarrow> bytes \<Rightarrow> nat option" where
  "struct_unpack_I P raw =
    (case (case byteorder P of LittleEndian \<Rightarrow> raw | BigEndian \<Rightarrow> rev raw) of
       [b0, b1, b2, b3] \<Rightarrow>
         Some (unat b0 + 256 * unat b1 + 65536 * unat b2 + 16777216 * unat b3)
     | _ \<Rightarrow> None)"

section \<open>Standard input and output\<close>

text \<open>
  Standard input is the bytes still to be read; \<open>read(n)\<close> returns the next \<open>n\<close>
  bytes, or fewer at the end of the stream. Standard output is buffered: \<open>write\<close>
  appends to the buffer, \<open>flush\<close> hands the buffer to the peer.
\<close>

record stdout =
  delivered :: bytes
  pending :: bytes

definition stdout_write :: "bytes \<Rightarrow> stdout \<Rightarrow> stdout" where
  "stdout_write bs out = out\<lparr>pending := pending out @ bs\<rparr>"

definition stdout_flush :: "stdout \<Rightarrow> stdout" where
  "stdout_flush out = out\<lparr>delivered := delivered out @ pending out, pending := []\<rparr>"

datatype 'a outcome = Returned 'a | SystemExit int

section \<open>The native messaging host\<close>

text \<open>
  \<open>read_message\<close>: the result and the rest of the input. \<open>sys.exit(0)\<close> raises
  \<open>SystemExit\<close>, which \<open>except Exception\<close> does not catch; every other failure
  inside the \<open>try\<close> returns \<open>None\<close>.
\<close>

definition read_message :: "platform \<Rightarrow> bytes \<Rightarrow> pyval outcome \<times> bytes" where
  "read_message P inp =
    (let raw_length = take 4 inp; inp1 = drop 4 inp in
     if raw_length = [] then (SystemExit 0, inp1)
     else
       (case struct_unpack_I P raw_length of
          None \<Rightarrow> (Returned PNone, inp1)
        | Some message_length \<Rightarrow>
            (let inp2 = drop message_length inp1 in
             case utf8_decode (take message_length inp1) of
               None \<Rightarrow> (Returned PNone, inp2)
             | Some message \<Rightarrow>
                 (case json_loads P ReadMessage message of
                    None \<Rightarrow> (Returned PNone, inp2)
                  | Some v \<Rightarrow> (Returned v, inp2)))))"

text \<open>
  \<open>send_message\<close>: the message is serialised and the length is packed before anything
  is written, so a failure (caught and logged) leaves the output as it was.
\<close>

definition send_message :: "platform \<Rightarrow> pyval \<Rightarrow> stdout \<Rightarrow> stdout" where
  "send_message P message out =
    (case json_dumps P SendMessage message of
       None \<Rightarrow> out
     | Some txt \<Rightarrow>
         (case utf8_encode txt of
            None \<Rightarrow> out
          | Some encoded \<Rightarrow>
              (case struct_pack_I P (length encoded) of
                 None \<Rightarrow> out
               | Some header \<Rightarrow> stdout_flush (stdout_write encoded (stdout_write header out)))))"

subsection \<open>The world outside the process\<close>

text \<open>
  The port file \<open>~/.bergamot/port.json\<close> and the HTTP server of the editor extension
  belong to the environment. An exception is its class and its text (\<open>str(e)\<close>). In
  \<open>requests\<close>, \<open>ProxyError\<close>, \<open>SSLError\<close> and \<open>ConnectTimeout\<close> derive from
  \<open>ConnectionError\<close>, \<open>ConnectTimeout\<close> and \<open>ReadTimeout\<close> derive from
  \<open>Timeout\<close>, and \<open>Response.ok\<close> is false exactly for the statuses \<open>400 .. 599\<close>.
\<close>

datatype port_file = Absent | Unreadable | Contents pystr

datatype exc_class =
    ConnectionError | ProxyError | SSLError | ConnectTimeout
  | Timeout | ReadTimeout | JSONDecodeError | AttributeError | OtherException

datatype exc = Exc exc_class pystr

fun exc_text :: "exc \<Rightarrow> pystr" where
  "exc_text (Exc c m) = m"

fun is_ConnectionError :: "exc \<Rightarrow> bool" where
  "is_ConnectionError (Exc c m) =
     (c = ConnectionError \<or> c = ProxyError \<or> c = SSLError \<or> c = ConnectTimeout)"

fun is_Timeout :: "exc \<Rightarrow> bool" where
  "is_Timeout (Exc c m) = (c = Timeout \<or> c = ConnectTimeout \<or> c = ReadTimeout)"

record response =
  status_code :: int
  response_text :: pystr

definition ok :: "response \<Rightarrow> bool" where
  "ok r = (\<not> (400 \<le> status_code r \<and> status_code r < 600))"

datatype http_result = Response response | Raised exc

record world =
  port_json :: port_file
  requests_post :: "pystr \<Rightarrow> pyval \<Rightarrow> http_result"
  requests_get :: "pystr \<Rightarrow> http_result"

subsection \<open>\<open>get_vscode_port\<close>\<close>

text \<open>
  Any exception while reading the file (it cannot be opened, it is not JSON or beyond
  the limits of the interpreter, the JSON value has no \<open>get\<close>) is caught, and the
  default follows. The argument \<open>c\<close> is the function that makes the call, which
  decides how many levels of recursion are left for \<open>json.load\<close>.
\<close>

definition get_vscode_port :: "platform \<Rightarrow> caller \<Rightarrow> world \<Rightarrow> pyval" where
  "get_vscode_port P c W =
    (case port_json W of
       Absent \<Rightarrow> PInt 5000
     | Unreadable \<Rightarrow> PInt 5000
     | Contents txt \<Rightarrow>
         (case json_loads P (GetPort c) txt of
            None \<Rightarrow> PInt 5000
          | Some data \<Rightarrow>
              (case data of
                 PDict d \<Rightarrow> dict_get d (lit ''port'') (PInt 5000)
               | _ \<Rightarrow> PInt 5000)))"

subsection \<open>\<open>forward_to_vscode\<close>\<close>

text \<open>
  \<open>forward_request\<close> is the body of the \<open>try\<close> statement: it returns the result
  dictionary or raises. \<open>forward_to_vscode\<close> adds the three \<open>except\<close> clauses, in
  the order of the source. Whatever \<open>response.json()\<close> raises (a
  \<open>JSONDecodeError\<close>, or a \<open>ValueError\<close> or \<open>RecursionError\<close> at the limits
  of the interpreter) is neither a \<open>ConnectionError\<close> nor a \<open>Timeout\<close>, so it
  reaches the last clause; it is recorded with the class \<open>JSONDecodeError\<close> and the
  text that the platform gives for the body.
\<close>

definition no_attribute_get :: "pyval \<Rightarrow> exc" where
  "no_attribute_get v =
     Exc AttributeError ([39] @ type_name v @ [39] @ lit '' object has no attribute ''
                         @ [39] @ lit ''get'' @ [39])"

definition forward_request :: "platform \<Rightarrow> world \<Rightarrow> pyval \<Rightarrow> pyval \<Rightarrow> exc + dict" where
  "forward_request P W port message =
    (case message of
       PDict m \<Rightarrow>
         (let endpoint = dict_get m (lit ''endpoint'') (PStr (lit ''/visit''));
              data = dict_get m (lit ''data'') (PDict []);
              url = lit ''http://localhost:'' @ py_str P port @ py_str P endpoint
          in case requests_post W url data of
               Raised e \<Rightarrow> Inl e
             | Response r \<Rightarrow>
                 if ok r then
                   (if response_text r \<noteq> [] then
                      (case json_loads P ResponseJson (response_text r) of
                         None \<Rightarrow> Inl (Exc JSONDecodeError (json_error_text P (response_text r)))
                       | Some body \<Rightarrow>
                           Inr [(lit ''success'', PBool True),
                                (lit ''status'', PInt (status_code r)),
                                (lit ''data'', body)])
                    else
                      Inr [(lit ''success'', PBool True),
                           (lit ''status'', PInt (status_code r)),
                           (lit ''data'', PNone)])
                 else
                   Inr [(lit ''success'', PBool False),
                        (lit ''error'',
                         PStr (lit ''VS Code returned status '' @ int_repr (status_code r)))])
     | _ \<Rightarrow> Inl (no_attribute_get message))"

definition forward_to_vscode :: "platform \<Rightarrow> world \<Rightarrow> pyval \<Rightarrow> dict" where
  "forward_to_vscode P W message =
    (let port = get_vscode_port P FromForward W in
     case forward_request P W port message of
       Inr result \<Rightarrow> result
     | Inl e \<Rightarrow>
         if is_ConnectionError e then
           [(lit ''success'', PBool False),
            (lit ''error'', PStr (lit ''Cannot connect to VS Code extension. Is it running?''))]
         else if is_Timeout e then
           [(lit ''success'', PBool False),
            (lit ''error'', PStr (lit ''Request to VS Code extension timed out''))]
         else
           [(lit ''success'', PBool False), (lit ''error'', PStr (exc_text e))])"

subsection \<open>\<open>main\<close>\<close>

text \<open>
  \<open>handle\<close> is the body of the loop after the test \<open>if not message\<close>: the output
  after the pass, or the exception that leaves the loop. A message that is not a
  \<open>dict\<close> has no \<open>get\<close>.
\<close>

definition check_status :: "platform \<Rightarrow> world \<Rightarrow> pyval" where
  "check_status P W =
    (let port = get_vscode_port P FromMain W;
         is_running =
           (case requests_get W (lit ''http://localhost:'' @ py_str P port @ lit ''/status'') of
              Response r \<Rightarrow> ok r
            | Raised e \<Rightarrow> False)
     in PDict [(lit ''type'', PStr (lit ''status'')),
               (lit ''vscode_running'', PBool is_running),
               (lit ''port'', port)])"

definition handle :: "platform \<Rightarrow> world \<Rightarrow> pyval \<Rightarrow> stdout \<Rightarrow> exc + stdout" where
  "handle P W message out =
    (case message of
       PDict m \<Rightarrow>
         (let msg_type = dict_get m (lit ''type'') PNone in
          if msg_type = PStr (lit ''ping'') then
            Inr (send_message P
                   (PDict [(lit ''type'', PStr (lit ''pong'')),
                           (lit ''echo'', dict_get m (lit ''data'') PNone)]) out)
          else if msg_type = PStr (lit ''get_port'') then
            Inr (send_message P
                   (PDict [(lit ''type'', PStr (lit ''port'')),
                           (lit ''port'', get_vscode_port P FromMain W)]) out)
          else if msg_type = PStr (lit ''forward'') then
            Inr (send_message P
                   (PDict (dict_merge [(lit ''type'', PStr (lit ''forward_result''))]
                             (forward_to_vscode P W message))) out)
          else if msg_type = PStr (lit ''check_status'') then
            Inr (send_message P (check_status P W) out)
          else
            Inr (send_message P
                   (PDict [(lit ''type'', PStr (lit ''error'')),
                           (lit ''error'',
                            PStr (lit ''Unknown message type: '' @ py_str P msg_type))]) out))
     | _ \<Rightarrow> Inl (no_attribute_get message))"

text \<open>
  The loop ends when \<open>read_message\<close> exits the process or when an exception leaves
  the body. The world may differ from one pass to the next (\<open>W i\<close> at pass \<open>i\<close>).
  Every pass that does not end the loop consumes input, so the loop ends on every finite
  input.
\<close>

datatype stop = SysExit int | Uncaught exc

lemma read_message_consumes:
  "read_message P inp = (Returned message, inp') \<Longrightarrow> length inp' < length inp"
  by (cases inp) (auto simp: read_message_def Let_def split: if_splits option.splits)

function main :: "platform \<Rightarrow> (nat \<Rightarrow> world) \<Rightarrow> nat \<Rightarrow> bytes \<Rightarrow> stdout \<Rightarrow> stop \<times> stdout" where
  "main P W i inp out =
    (case read_message P inp of
       (SystemExit code, inp') \<Rightarrow> (SysExit code, out)
     | (Returned message, inp') \<Rightarrow>
         if \<not> truthy message then main P W (Suc i) inp' out
         else
           (case handle P (W i) message out of
              Inl e \<Rightarrow> (Uncaught e, out)
            | Inr out' \<Rightarrow> main P W (Suc i) inp' out'))"
  by pat_completeness auto
termination
  by (relation "measure (\<lambda>(P, W, i, inp, out). length inp)")
    (auto dest: read_message_consumes [OF sym])

declare main.simps [simp del]

text \<open>
  The \<open>__main__\<close> block: the exit code of the process and everything it wrote. An
  exception out of \<open>main\<close> is logged and becomes exit code 1.
\<close>

definition run :: "platform \<Rightarrow> (nat \<Rightarrow> world) \<Rightarrow> bytes \<Rightarrow> int \<times> stdout" where
  "run P W inp =
    (case main P W 0 inp \<lparr>delivered = [], pending = []\<rparr> of
       (SysExit code, out) \<Rightarrow> (code, out)
     | (Uncaught e, out) \<Rightarrow> (1, out))"

section \<open>Examples: a platform and two worlds\<close>

text \<open>
  A platform for the concrete runs below: the program run as a script by CPython 3.11 on
  a little-endian machine, with the default limits (4300 digits, recursion limit 1000).
  The tables of the platform are given only where the runs consult them, and say nothing
  elsewhere: the one float literal of the runs is \<open>1.5\<close>, the one text that fails to
  parse in a response is \<open>OK\<close>, and no run applies \<open>repr\<close> to a character
  outside ASCII. With the recursion limit 1000, \<open>json.loads\<close> in \<open>read_message\<close>
  and \<open>json.dumps\<close> in \<open>send_message\<close> handle a nesting of 993 levels,
  \<open>json.load\<close> in \<open>get_vscode_port\<close> one of 992 when the function is called from
  \<open>main\<close> and of 991 when it is called from \<open>forward_to_vscode\<close>, and
  \<open>response.json()\<close> one of 992. In \<open>no_server\<close> the port file is absent and
  nothing listens; in \<open>running_server\<close> the port file names port 5432 and the server
  answers.
\<close>

definition example_platform :: platform where
  "example_platform =
     \<lparr>byteorder = LittleEndian,
      float_of_literal = (\<lambda>s. if s = lit ''1.5'' then FFinite (lit ''1.5'') else undefined),
      isprintable = (\<lambda>c. undefined),
      json_error_text =
        (\<lambda>s. if s = lit ''OK'' then lit ''Expecting value: line 1 column 1 (char 0)''
             else undefined),
      int_max_str_digits = 4300,
      json_room = (\<lambda>c. case c of SendMessage \<Rightarrow> 992 | ReadMessage \<Rightarrow> 992
                          | GetPort FromMain \<Rightarrow> 991 | GetPort FromForward \<Rightarrow> 990
                          | ResponseJson \<Rightarrow> 991)\<rparr>"

definition no_server :: world where
  "no_server =
     \<lparr>port_json = Absent,
      requests_post = (\<lambda>url data. Raised (Exc ConnectionError (lit ''Connection refused''))),
      requests_get = (\<lambda>url. Raised (Exc ConnectionError (lit ''Connection refused'')))\<rparr>"

definition running_server :: world where
  "running_server =
     \<lparr>port_json = Contents (lit ''{\"port\": 5432}''),
      requests_post = (\<lambda>url data. Response \<lparr>status_code = 200, response_text = lit ''{\"ok\": true}''\<rparr>),
      requests_get = (\<lambda>url. if url = lit ''http://localhost:5432/status''
                            then Response \<lparr>status_code = 200, response_text = []\<rparr>
                            else Raised (Exc ConnectionError (lit ''Connection refused'')))\<rparr>"

definition empty_stdout :: stdout where
  "empty_stdout = \<lparr>delivered = [], pending = []\<rparr>"

definition bytes_of :: "string \<Rightarrow> bytes" where
  "bytes_of s = map of_char s"

section \<open>One pass of the loop\<close>

lemma main_step_exit:
  "read_message P inp = (SystemExit code, inp') \<Longrightarrow> main P W i inp out = (SysExit code, out)"
  by (subst main.simps) simp

lemma main_step_falsy:
  "read_message P inp = (Returned message, inp') \<Longrightarrow> \<not> truthy message \<Longrightarrow>
   main P W i inp out = main P W (Suc i) inp' out"
  by (subst main.simps) simp

lemma main_step_handle:
  "read_message P inp = (Returned message, inp') \<Longrightarrow> truthy message \<Longrightarrow>
   handle P (W i) message out = Inr out' \<Longrightarrow>
   main P W i inp out = main P W (Suc i) inp' out'"
  by (subst main.simps) simp

lemma main_step_raise:
  "read_message P inp = (Returned message, inp') \<Longrightarrow> truthy message \<Longrightarrow>
   handle P (W i) message out = Inl e \<Longrightarrow>
   main P W i inp out = (Uncaught e, out)"
  by (subst main.simps) simp

lemma main_at_end: "main P W i [] out = (SysExit 0, out)"
  by (rule main_step_exit [of _ _ _ "[]"]) (simp add: read_message_def)

lemma lit_eq_iff [simp]: "lit a = lit b \<longleftrightarrow> a = b"
  unfolding lit_def by (simp add: inj_map_eq_map inj_on_def)

lemma dict_get_nonempty: "dict_get m k PNone = PStr t \<Longrightarrow> m \<noteq> []"
  by (auto simp: dict_get_def)

section \<open>End of the input stream\<close>

text \<open>
  C5. When the read of the length prefix returns no byte (the end of the input stream),
  \<open>read_message\<close> exits with code 0: the loop stops, the process ends with exit code
  0, and the output is what it was, so no further frame is written.
\<close>

theorem end_of_stream_exits_0:
  "read_message P [] = (SystemExit 0, []) \<and>
   main P W i [] out = (SysExit 0, out) \<and>
   run P W [] = (0, \<lparr>delivered = [], pending = []\<rparr>)"
  by (simp add: read_message_def main_at_end run_def)

section \<open>Falsy messages\<close>

text \<open>
  C10. A frame whose payload decodes to a falsy value (the empty object, \<open>false\<close>,
  \<open>null\<close>, \<open>0\<close>, the empty string, the empty array) is treated like a decode
  failure: the pass writes nothing, no handler runs, and the loop goes on with the next
  frame.
\<close>

theorem falsy_message_skipped:
  assumes "read_message P inp = (Returned message, inp')"
    and "message \<in> {PDict [], PBool False, PNone, PInt 0, PStr [], PList []}"
  shows "\<not> truthy message \<and> main P W i inp out = main P W (Suc i) inp' out"
proof -
  have "\<not> truthy message" using assms(2) by auto
  then show ?thesis using main_step_falsy [OF assms(1)] by simp
qed

theorem falsy_message_skipped_witness:
  "read_message example_platform ([2, 0, 0, 0] @ bytes_of ''{}'') = (Returned (PDict []), []) \<and>
   main example_platform (\<lambda>i. no_server) 0 ([2, 0, 0, 0] @ bytes_of ''{}'') empty_stdout
     = (SysExit 0, empty_stdout)"
proof -
  have r: "read_message example_platform ([2, 0, 0, 0] @ bytes_of ''{}'') = (Returned (PDict []), [])"
    by code_simp
  show ?thesis
    using falsy_message_skipped [OF r, of "\<lambda>i. no_server" 0 empty_stdout] r
    by (simp add: main_at_end)
qed

section \<open>Unknown message types\<close>

text \<open>
  C3, as the code has it. For a decoded message that is a non-empty object and whose
  \<open>type\<close> is none of \<open>ping\<close>, \<open>get_port\<close>, \<open>forward\<close>, \<open>check_status\<close>, the
  pass sends exactly the response \<open>{type: "error", error: "Unknown message type: " + type}\<close>
  and the loop goes on. The type is formatted as an f-string does: a string as itself,
  \<open>py_str\<close> of any other value (\<open>None\<close> when the field is missing). The claim does
  not hold of every decoded message: the empty object is falsy and gets no response, and
  a truthy value that is not an object, such as \<open>[1]\<close>, has no \<open>get\<close>, so the
  process ends with exit code 1 and no response.
\<close>

theorem unknown_type_error_response:
  assumes "read_message P inp = (Returned (PDict m), inp')"
    and "m \<noteq> []"
    and "msg_type = dict_get m (lit ''type'') PNone"
    and "msg_type \<notin> {PStr (lit ''ping''), PStr (lit ''get_port''), PStr (lit ''forward''),
                      PStr (lit ''check_status'')}"
  shows "main P W i inp out =
         main P W (Suc i) inp'
           (send_message P
              (PDict [(lit ''type'', PStr (lit ''error'')),
                      (lit ''error'', PStr (lit ''Unknown message type: '' @ py_str P msg_type))])
              out)
         \<and> (\<forall>t. msg_type = PStr t \<longrightarrow> py_str P msg_type = t)"
proof -
  have "handle P (W i) (PDict m) out =
        Inr (send_message P
              (PDict [(lit ''type'', PStr (lit ''error'')),
                      (lit ''error'', PStr (lit ''Unknown message type: '' @ py_str P msg_type))])
              out)"
    using assms(3,4) by (simp add: handle_def Let_def)
  moreover have "truthy (PDict m)" using assms(2) by simp
  ultimately show ?thesis using main_step_handle [OF assms(1)] by (simp add: py_str_def)
qed

theorem unknown_type_error_response_witness:
  "main example_platform (\<lambda>i. no_server) 0
     ([17, 0, 0, 0] @ bytes_of ''{\"type\": \"hello\"}'') empty_stdout =
   (SysExit 0,
    \<lparr>delivered = [57, 0, 0, 0]
        @ bytes_of ''{\"type\": \"error\", \"error\": \"Unknown message type: hello\"}'',
     pending = []\<rparr>)"
proof -
  have r: "read_message example_platform ([17, 0, 0, 0] @ bytes_of ''{\"type\": \"hello\"}'')
     = (Returned (PDict [(lit ''type'', PStr (lit ''hello''))]), [])"
    by code_simp
  have s: "send_message example_platform
              (PDict [(lit ''type'', PStr (lit ''error'')),
                      (lit ''error'', PStr (lit ''Unknown message type: '' @ lit ''hello''))])
              empty_stdout =
           \<lparr>delivered = [57, 0, 0, 0]
              @ bytes_of ''{\"type\": \"error\", \"error\": \"Unknown message type: hello\"}'',
            pending = []\<rparr>"
    by code_simp
  show ?thesis
    using unknown_type_error_response [OF r, of "PStr (lit ''hello'')" "\<lambda>i. no_server" 0 empty_stdout]
    by (simp add: dict_get_def py_str_def s main_at_end)
qed

theorem unknown_type_error_response_counterexample:
  "read_message example_platform ([2, 0, 0, 0] @ bytes_of ''{}'') = (Returned (PDict []), []) \<and>
   dict_get [] (lit ''type'') PNone = PNone \<and>
   run example_platform (\<lambda>i. no_server) ([2, 0, 0, 0] @ bytes_of ''{}'')
     = (0, \<lparr>delivered = [], pending = []\<rparr>) \<and>
   read_message example_platform ([3, 0, 0, 0] @ bytes_of ''[1]'')
     = (Returned (PList [PInt 1]), []) \<and>
   run example_platform (\<lambda>i. no_server) ([3, 0, 0, 0] @ bytes_of ''[1]'')
     = (1, \<lparr>delivered = [], pending = []\<rparr>)"
  by code_simp

section \<open>Liveness probe\<close>

text \<open>
  C9. For a \<open>check_status\<close> message the pass never raises: it sends exactly one response
  \<open>{type: "status", vscode_running: b, port: N}\<close>, where \<open>N\<close> is the configured port
  and \<open>b\<close> is true exactly when the GET of \<open>/status\<close> on that port returns a response
  whose \<open>ok\<close> holds; any exception gives \<open>b = false\<close>. Then the loop goes on.
\<close>

theorem check_status_response:
  assumes "read_message P inp = (Returned (PDict m), inp')"
    and "dict_get m (lit ''type'') PNone = PStr (lit ''check_status'')"
  shows "main P W i inp out =
         main P W (Suc i) inp'
           (send_message P
              (PDict [(lit ''type'', PStr (lit ''status'')),
                      (lit ''vscode_running'',
                       PBool (\<exists>r. requests_get (W i)
                                     (lit ''http://localhost:'' @ py_str P (get_vscode_port P FromMain (W i))
                                      @ lit ''/status'') = Response r \<and> ok r)),
                      (lit ''port'', get_vscode_port P FromMain (W i))])
              out)"
proof -
  have "handle P (W i) (PDict m) out = Inr (send_message P (check_status P (W i)) out)"
    using assms(2) by (simp add: handle_def Let_def)
  moreover have "check_status P (W i) =
      PDict [(lit ''type'', PStr (lit ''status'')),
             (lit ''vscode_running'',
              PBool (\<exists>r. requests_get (W i)
                            (lit ''http://localhost:'' @ py_str P (get_vscode_port P FromMain (W i))
                             @ lit ''/status'') = Response r \<and> ok r)),
             (lit ''port'', get_vscode_port P FromMain (W i))]"
    by (simp add: check_status_def Let_def split: http_result.split)
  moreover have "truthy (PDict m)"
    using dict_get_nonempty [OF assms(2)] by simp
  ultimately show ?thesis using main_step_handle [OF assms(1)] by simp
qed

theorem check_status_response_witness:
  "main example_platform (\<lambda>i. running_server) 0
     ([24, 0, 0, 0] @ bytes_of ''{\"type\": \"check_status\"}'') empty_stdout =
   (SysExit 0,
    \<lparr>delivered = [56, 0, 0, 0]
        @ bytes_of ''{\"type\": \"status\", \"vscode_running\": true, \"port\": 5432}'',
     pending = []\<rparr>) \<and>
   main example_platform (\<lambda>i. no_server) 0
     ([24, 0, 0, 0] @ bytes_of ''{\"type\": \"check_status\"}'') empty_stdout =
   (SysExit 0,
    \<lparr>delivered = [57, 0, 0, 0]
        @ bytes_of ''{\"type\": \"status\", \"vscode_running\": false, \"port\": 5000}'',
     pending = []\<rparr>)"
proof -
  have r: "read_message example_platform ([24, 0, 0, 0] @ bytes_of ''{\"type\": \"check_status\"}'')
     = (Returned (PDict [(lit ''type'', PStr (lit ''check_status''))]), [])"
    by code_simp
  have t: "dict_get [(lit ''type'', PStr (lit ''check_status''))] (lit ''type'') PNone
     = PStr (lit ''check_status'')"
    by (simp add: dict_get_def)
  have p1: "get_vscode_port example_platform FromMain running_server = PInt 5432"
    by code_simp
  have u1: "lit ''http://localhost:'' @ py_str example_platform (PInt 5432) @ lit ''/status''
     = lit ''http://localhost:5432/status''"
    by code_simp
  have g1: "(\<exists>r. requests_get running_server (lit ''http://localhost:5432/status'') = Response r \<and> ok r)"
    by (simp add: running_server_def ok_def)
  have s1: "send_message example_platform
              (PDict [(lit ''type'', PStr (lit ''status'')), (lit ''vscode_running'', PBool True),
                      (lit ''port'', PInt 5432)]) empty_stdout =
            \<lparr>delivered = [56, 0, 0, 0]
               @ bytes_of ''{\"type\": \"status\", \"vscode_running\": true, \"port\": 5432}'',
             pending = []\<rparr>"
    by code_simp
  have p2: "get_vscode_port example_platform FromMain no_server = PInt 5000"
    by code_simp
  have g2: "\<not> (\<exists>r. requests_get no_server u = Response r \<and> ok r)" for u
    by (simp add: no_server_def)
  have s2: "send_message example_platform
              (PDict [(lit ''type'', PStr (lit ''status'')), (lit ''vscode_running'', PBool False),
                      (lit ''port'', PInt 5000)]) empty_stdout =
            \<lparr>delivered = [57, 0, 0, 0]
               @ bytes_of ''{\"type\": \"status\", \"vscode_running\": false, \"port\": 5000}'',
             pending = []\<rparr>"
    by code_simp
  show ?thesis
    using check_status_response [OF r t, of "\<lambda>i. running_server" 0 empty_stdout]
      check_status_response [OF r t, of "\<lambda>i. no_server" 0 empty_stdout]
    by (simp only: p1 u1 g1 s1 p2 g2 s2 main_at_end simp_thms)
qed

section \<open>The configured port\<close>

lemma few_digits: "n \<le> 640 \<Longrightarrow> \<not> too_many_digits P n"
  by (simp add: too_many_digits_def)

lemma loads_port_5432:
  "json_loads P (GetPort c) (lit ''{\"port\": 5432}'') = Some (PDict [(lit ''port'', PInt 5432)])"
proof -
  have m: "match_number (lit ''5432}'') = Some (lit ''5432'', [], [], lit ''}'')"
    by code_simp
  have f: "length (filter is_digit (lit ''5432'')) = 4"
    by code_simp
  have i: "int_of_literal (lit ''5432'') = 5432"
    by code_simp
  have t: "take 4 (lit ''5432}'') \<noteq> lit ''null''" "take 4 (lit ''5432}'') \<noteq> lit ''true''"
    "take 5 (lit ''5432}'') \<noteq> lit ''false''"
    by (simp_all add: lit_def)
  have a: "scan_atom P (lit ''5432}'') = Some (PInt 5432, lit ''}'')"
    unfolding scan_atom_def by (simp add: t m f i few_digits)
  have k: "scanstring (lit ''port\": 5432}'') = Some (lit ''port'', lit '': 5432}'')"
    by code_simp
  have w1: "skip_ws (lit '': 5432}'') = 58 # lit '' 5432}''"
    by code_simp
  have w2: "skip_ws (lit '' 5432}'') = lit ''5432}''"
    by code_simp
  have w3: "skip_ws (lit ''}'') = [125]"
    by code_simp
  have c: "lit ''5432}'' = 53 # lit ''432}''"
    by (simp add: lit_def)
  have s: "scan_once P n (lit ''5432}'') = Some (PInt 5432, lit ''}'')" for n
    by (subst scan_once.simps) (simp add: a [unfolded c] c)
  have g: "\<not> length (lit ''port\": 5432}'') < length (lit ''}'')"
    by (simp add: lit_def)
  have o: "parse_object P n (lit ''port\": 5432}'') = Some ([(lit ''port'', PInt 5432)], [])" for n
    by (subst parse_object.simps) (simp add: k w1 w2 s w3 g)
  have w4: "skip_ws (lit ''{\"port\": 5432}'') = 123 # lit ''\"port\": 5432}''"
    by code_simp
  have w5: "skip_ws (lit ''\"port\": 5432}'') = 34 # lit ''port\": 5432}''"
    by code_simp
  have "scan_once P (Suc n) (123 # lit ''\"port\": 5432}'') = Some (PDict [(lit ''port'', PInt 5432)], [])" for n
    by (subst scan_once.simps)
      (simp add: w5 o dict_of_pairs_def dict_merge_def)
  moreover have "skip_ws [] = []"
    by (simp add: skip_ws_def)
  ultimately show ?thesis
    by (simp add: json_loads_def w4)
qed

text \<open>
  C7. When the port file is absent or cannot be read, a \<open>get_port\<close> message is
  answered with \<open>{type: "port", port: 5000}\<close>; when the file contains
  \<open>{"port": 5432}\<close>, with \<open>{type: "port", port: 5432}\<close>.
\<close>

theorem get_port_response:
  assumes "read_message P inp = (Returned (PDict m), inp')"
    and "dict_get m (lit ''type'') PNone = PStr (lit ''get_port'')"
  shows "(port_json (W i) = Absent \<or> port_json (W i) = Unreadable \<longrightarrow>
          main P W i inp out =
          main P W (Suc i) inp'
            (send_message P (PDict [(lit ''type'', PStr (lit ''port'')), (lit ''port'', PInt 5000)])
               out)) \<and>
         (port_json (W i) = Contents (lit ''{\"port\": 5432}'') \<longrightarrow>
          main P W i inp out =
          main P W (Suc i) inp'
            (send_message P (PDict [(lit ''type'', PStr (lit ''port'')), (lit ''port'', PInt 5432)])
               out))"
proof -
  have h: "handle P (W i) (PDict m) out =
        Inr (send_message P
               (PDict [(lit ''type'', PStr (lit ''port'')), (lit ''port'', get_vscode_port P FromMain (W i))])
               out)"
    using assms(2) by (simp add: handle_def Let_def)
  have t: "truthy (PDict m)"
    using dict_get_nonempty [OF assms(2)] by simp
  have step: "main P W i inp out =
        main P W (Suc i) inp'
          (send_message P
             (PDict [(lit ''type'', PStr (lit ''port'')), (lit ''port'', get_vscode_port P FromMain (W i))])
             out)"
    using main_step_handle [where W = W and i = i, OF assms(1) t h] .
  have a: "port_json (W i) = Absent \<or> port_json (W i) = Unreadable \<Longrightarrow>
           get_vscode_port P FromMain (W i) = PInt 5000"
    by (auto simp: get_vscode_port_def)
  have b: "port_json (W i) = Contents (lit ''{\"port\": 5432}'') \<Longrightarrow>
           get_vscode_port P FromMain (W i) = PInt 5432"
    by (simp add: get_vscode_port_def loads_port_5432 dict_get_def)
  show ?thesis using step a b by simp
qed

theorem get_port_response_witness:
  "main example_platform (\<lambda>i. no_server) 0
     ([20, 0, 0, 0] @ bytes_of ''{\"type\": \"get_port\"}'') empty_stdout =
   (SysExit 0,
    \<lparr>delivered = [30, 0, 0, 0] @ bytes_of ''{\"type\": \"port\", \"port\": 5000}'',
     pending = []\<rparr>) \<and>
   main example_platform (\<lambda>i. running_server) 0
     ([20, 0, 0, 0] @ bytes_of ''{\"type\": \"get_port\"}'') empty_stdout =
   (SysExit 0,
    \<lparr>delivered = [30, 0, 0, 0] @ bytes_of ''{\"type\": \"port\", \"port\": 5432}'',
     pending = []\<rparr>)"
proof -
  have r: "read_message example_platform ([20, 0, 0, 0] @ bytes_of ''{\"type\": \"get_port\"}'')
     = (Returned (PDict [(lit ''type'', PStr (lit ''get_port''))]), [])"
    by code_simp
  have t: "dict_get [(lit ''type'', PStr (lit ''get_port''))] (lit ''type'') PNone
     = PStr (lit ''get_port'')"
    by (simp add: dict_get_def)
  have s1: "send_message example_platform
              (PDict [(lit ''type'', PStr (lit ''port'')), (lit ''port'', PInt 5000)]) empty_stdout =
            \<lparr>delivered = [30, 0, 0, 0] @ bytes_of ''{\"type\": \"port\", \"port\": 5000}'',
             pending = []\<rparr>"
    by code_simp
  have s2: "send_message example_platform
              (PDict [(lit ''type'', PStr (lit ''port'')), (lit ''port'', PInt 5432)]) empty_stdout =
            \<lparr>delivered = [30, 0, 0, 0] @ bytes_of ''{\"type\": \"port\", \"port\": 5432}'',
             pending = []\<rparr>"
    by code_simp
  have f1: "port_json no_server = Absent"
    by (simp add: no_server_def)
  have f2: "port_json running_server = Contents (lit ''{\"port\": 5432}'')"
    by (simp add: running_server_def)
  show ?thesis
    using get_port_response [OF r t, of "\<lambda>i. no_server" 0 empty_stdout]
      get_port_response [OF r t, of "\<lambda>i. running_server" 0 empty_stdout]
    by (simp only: f1 f2 s1 s2 main_at_end simp_thms port_file.distinct)
qed

section \<open>Forwarding\<close>

definition plain_text_server :: world where
  "plain_text_server =
     no_server\<lparr>requests_post :=
       (\<lambda>url data. Response \<lparr>status_code = 200, response_text = lit ''OK''\<rparr>)\<rparr>"

definition not_modified_server :: world where
  "not_modified_server =
     no_server\<lparr>requests_post :=
       (\<lambda>url data. Response \<lparr>status_code = 304, response_text = []\<rparr>)\<rparr>"

definition slow_network :: world where
  "slow_network =
     no_server\<lparr>requests_post :=
       (\<lambda>url data. Raised (Exc ConnectTimeout (lit ''Connection to localhost timed out'')))\<rparr>"

text \<open>The URL and the body of the POST that \<open>forward_to_vscode\<close> makes for a message.\<close>

definition forward_url :: "platform \<Rightarrow> world \<Rightarrow> dict \<Rightarrow> pystr" where
  "forward_url P W m =
     lit ''http://localhost:'' @ py_str P (get_vscode_port P FromForward W)
       @ py_str P (dict_get m (lit ''endpoint'') (PStr (lit ''/visit'')))"

definition forward_data :: "dict \<Rightarrow> pyval" where
  "forward_data m = dict_get m (lit ''data'') (PDict [])"

text \<open>
  C2, as the code has it. When the POST returns a response: for a status in
  \<open>400 .. 599\<close> the result is \<open>{success: false, error: "VS Code returned status <code>"}\<close>;
  for any other status (\<open>Response.ok\<close>) and a body that is empty or valid JSON it is
  \<open>{success: true, status, data}\<close>, with the parsed body or \<open>null\<close> for the empty
  one; for any other status and a body that is not JSON, the exception of the parser is
  caught and the result is \<open>{success: false, error: <its text>}\<close>.
\<close>

theorem forward_response:
  assumes "requests_post W (forward_url P W m) (forward_data m) = Response r"
  shows "forward_to_vscode P W (PDict m) =
    (if 400 \<le> status_code r \<and> status_code r < 600 then
       [(lit ''success'', PBool False),
        (lit ''error'', PStr (lit ''VS Code returned status '' @ int_repr (status_code r)))]
     else if response_text r = [] then
       [(lit ''success'', PBool True), (lit ''status'', PInt (status_code r)),
        (lit ''data'', PNone)]
     else
       (case json_loads P ResponseJson (response_text r) of
          Some body \<Rightarrow>
            [(lit ''success'', PBool True), (lit ''status'', PInt (status_code r)),
             (lit ''data'', body)]
        | None \<Rightarrow>
            [(lit ''success'', PBool False),
             (lit ''error'', PStr (json_error_text P (response_text r)))]))"
  using assms
  by (simp add: forward_to_vscode_def forward_request_def forward_url_def forward_data_def
      Let_def ok_def split: option.split)

theorem forward_response_witness:
  "forward_to_vscode example_platform running_server (PDict [(lit ''type'', PStr (lit ''forward''))]) =
     [(lit ''success'', PBool True), (lit ''status'', PInt 200),
      (lit ''data'', PDict [(lit ''ok'', PBool True)])]"
proof -
  have p: "requests_post running_server
             (forward_url example_platform running_server [(lit ''type'', PStr (lit ''forward''))])
             (forward_data [(lit ''type'', PStr (lit ''forward''))])
           = Response \<lparr>status_code = 200, response_text = lit ''{\"ok\": true}''\<rparr>"
    by (simp add: running_server_def)
  have j: "json_loads example_platform ResponseJson (lit ''{\"ok\": true}'') = Some (PDict [(lit ''ok'', PBool True)])"
    by code_simp
  have n: "lit ''{\"ok\": true}'' \<noteq> []"
    by (simp add: lit_def)
  show ?thesis
    using forward_response [OF p] by (simp add: j n)
qed

theorem forward_response_counterexample:
  "forward_to_vscode example_platform plain_text_server (PDict [(lit ''type'', PStr (lit ''forward''))])
     = [(lit ''success'', PBool False),
        (lit ''error'', PStr (lit ''Expecting value: line 1 column 1 (char 0)''))] \<and>
   forward_to_vscode example_platform not_modified_server (PDict [(lit ''type'', PStr (lit ''forward''))])
     = [(lit ''success'', PBool True), (lit ''status'', PInt 304), (lit ''data'', PNone)]"
  by code_simp

text \<open>
  C6, as the code has it. \<open>forward_to_vscode\<close> always returns a result dictionary with a
  Boolean \<open>success\<close>. When the POST raises, the result is \<open>{success: false, error}\<close>:
  \<open>"Cannot connect to VS Code extension. Is it running?"\<close> for a \<open>ConnectionError\<close>
  (a connect timeout is one), \<open>"Request to VS Code extension timed out"\<close> for any other
  \<open>Timeout\<close>, and the text of the exception otherwise.
\<close>

theorem forward_errors:
  "(\<exists>b. map_of (forward_to_vscode P W message) (lit ''success'') = Some (PBool b)) \<and>
   (\<forall>m e. message = PDict m \<and>
      requests_post W (forward_url P W m) (forward_data m) = Raised e \<longrightarrow>
      forward_to_vscode P W message =
        [(lit ''success'', PBool False),
         (lit ''error'',
          PStr (if is_ConnectionError e
                then lit ''Cannot connect to VS Code extension. Is it running?''
                else if is_Timeout e then lit ''Request to VS Code extension timed out''
                else exc_text e))])"
  by (auto simp: forward_to_vscode_def forward_request_def forward_url_def forward_data_def
      Let_def split: pyval.split http_result.split option.split sum.split)

theorem forward_errors_witness:
  "forward_to_vscode example_platform no_server (PDict [(lit ''type'', PStr (lit ''forward''))]) =
     [(lit ''success'', PBool False),
      (lit ''error'', PStr (lit ''Cannot connect to VS Code extension. Is it running?''))]"
proof -
  have p: "requests_post no_server
             (forward_url example_platform no_server [(lit ''type'', PStr (lit ''forward''))])
             (forward_data [(lit ''type'', PStr (lit ''forward''))])
           = Raised (Exc ConnectionError (lit ''Connection refused''))"
    by (simp add: no_server_def)
  show ?thesis
    using forward_errors [of example_platform no_server "PDict [(lit ''type'', PStr (lit ''forward''))]"] p
    by simp
qed

theorem forward_errors_counterexample:
  "is_Timeout (Exc ConnectTimeout (lit ''Connection to localhost timed out'')) \<and>
   forward_to_vscode example_platform slow_network (PDict [(lit ''type'', PStr (lit ''forward''))])
     = [(lit ''success'', PBool False),
        (lit ''error'', PStr (lit ''Cannot connect to VS Code extension. Is it running?''))]"
  by code_simp

section \<open>Decode failures\<close>

text \<open>
  What \<open>read_message\<close> decodes: the four bytes of the prefix, then the payload that
  \<open>read\<close> returns for the declared length, that is the declared number of bytes or,
  when the stream ends before, the bytes that are left.
\<close>

definition decode_fails :: "platform \<Rightarrow> bytes \<Rightarrow> bool" where
  "decode_fails P inp =
    (case struct_unpack_I P (take 4 inp) of
       None \<Rightarrow> True
     | Some n \<Rightarrow>
         (case utf8_decode (take n (drop 4 inp)) of
            None \<Rightarrow> True
          | Some txt \<Rightarrow> json_loads P ReadMessage txt = None))"

lemma four_bytes_None:
  "(case xs of [b0, b1, b2, b3] \<Rightarrow> Some (f b0 b1 b2 b3) | _ \<Rightarrow> None) = None
   \<longleftrightarrow> length xs \<noteq> 4"
  by (auto split: list.splits)

lemma struct_unpack_I_None: "struct_unpack_I P raw = None \<longleftrightarrow> length raw \<noteq> 4"
  unfolding struct_unpack_I_def
  by (cases "byteorder P") (simp_all only: endian.case four_bytes_None length_rev)

text \<open>
  C4, as the code has it. On a non-empty input whose frame fails to decode (the prefix
  has fewer than four bytes, or the payload read is not valid UTF-8, or it is not valid
  JSON), \<open>read_message\<close> returns \<open>None\<close>; the pass raises nothing, writes nothing and
  the loop goes on with the rest of the input. A declared length beyond the end of the
  stream is not a failure by itself: the bytes that are left are the payload.
\<close>

theorem decode_failure_skipped:
  assumes "inp \<noteq> []" and "decode_fails P inp"
  shows "fst (read_message P inp) = Returned PNone \<and>
         main P W i inp out = main P W (Suc i) (snd (read_message P inp)) out"
proof -
  from assms obtain inp' where r: "read_message P inp = (Returned PNone, inp')"
    by (auto simp: read_message_def decode_fails_def Let_def split: option.splits)
  have "main P W i inp out = main P W (Suc i) inp' out"
    using main_step_falsy [OF r] by simp
  with r show ?thesis by simp
qed

theorem decode_failure_skipped_witness:
  "decode_fails example_platform ([1, 2]) \<and>
   decode_fails example_platform ([2, 0, 0, 0, 195, 40]) \<and>
   decode_fails example_platform ([100, 0, 0, 0] @ bytes_of ''{\"type\": '') \<and>
   main example_platform (\<lambda>i. no_server) 0 ([100, 0, 0, 0] @ bytes_of ''{\"type\": '') empty_stdout
     = (SysExit 0, empty_stdout)"
proof -
  define inp where "inp = [100, 0, 0, 0] @ bytes_of ''{\"type\": ''"
  have d1: "decode_fails example_platform ([1, 2])"
    by code_simp
  have d2: "decode_fails example_platform ([2, 0, 0, 0, 195, 40])"
    by code_simp
  have d3: "decode_fails example_platform inp"
    unfolding inp_def by code_simp
  have n: "inp \<noteq> []"
    unfolding inp_def by simp
  have r: "read_message example_platform inp = (Returned PNone, [])"
    unfolding inp_def by code_simp
  have "main example_platform (\<lambda>i. no_server) 0 inp empty_stdout = (SysExit 0, empty_stdout)"
    using decode_failure_skipped [OF n d3, of "\<lambda>i. no_server" 0 empty_stdout]
    by (simp add: r main_at_end)
  then show ?thesis
    using d1 d2 d3 unfolding inp_def by simp
qed

theorem decode_failure_skipped_counterexample:
  "length (bytes_of ''{\"type\": \"ping\"}'') < 100 \<and>
   read_message example_platform ([100, 0, 0, 0] @ bytes_of ''{\"type\": \"ping\"}'')
     = (Returned (PDict [(lit ''type'', PStr (lit ''ping''))]), []) \<and>
   main example_platform (\<lambda>i. no_server) 0
     ([100, 0, 0, 0] @ bytes_of ''{\"type\": \"ping\"}'') empty_stdout
     = (SysExit 0,
        \<lparr>delivered = [30, 0, 0, 0] @ bytes_of ''{\"type\": \"pong\", \"echo\": null}'',
         pending = []\<rparr>)"
  by code_simp

section \<open>Well-formed values\<close>

text \<open>
  The invariants of the Python values: a code point is below \<open>0x110000\<close>, the keys of
  a \<open>dict\<close> are distinct, and the text that carries a finite float is a number literal
  with a fraction or an exponent, as \<open>repr\<close> prints it.
\<close>

definition float_literal :: "pystr \<Rightarrow> bool" where
  "float_literal r =
    (case match_number r of
       Some (integer, frac, ex, rest) \<Rightarrow> rest = [] \<and> (frac \<noteq> [] \<or> ex \<noteq> [])
     | None \<Rightarrow> False)"

definition wf_str :: "pystr \<Rightarrow> bool" where
  "wf_str s = (\<forall>c \<in> set s. c < 1114112)"

fun wf_value :: "pyval \<Rightarrow> bool" where
  "wf_value PNone = True"
| "wf_value (PBool b) = True"
| "wf_value (PInt i) = True"
| "wf_value (PFloat f) = (case f of FFinite r \<Rightarrow> float_literal r | _ \<Rightarrow> True)"
| "wf_value (PStr s) = wf_str s"
| "wf_value (PList xs) = (\<forall>x \<in> set xs. wf_value x)"
| "wf_value (PDict d) =
     (distinct (map fst d) \<and> (\<forall>kv \<in> set d. wf_str (fst kv) \<and> wf_value (snd kv)))"

definition ascii :: "pystr \<Rightarrow> bool" where
  "ascii s = (\<forall>c \<in> set s. c < 128)"

lemma ascii_simps [simp]:
  "ascii []" "ascii (c # s) \<longleftrightarrow> c < 128 \<and> ascii s" "ascii (s @ t) \<longleftrightarrow> ascii s \<and> ascii t"
  by (auto simp: ascii_def)

lemma ascii_lit [simp]: "ascii (lit s) \<longleftrightarrow> (\<forall>c \<in> set s. of_char c < (128::nat))"
  by (auto simp: ascii_def lit_def)

lemma ascii_concat: "(\<And>x. x \<in> set xs \<Longrightarrow> ascii x) \<Longrightarrow> ascii (concat xs)"
  by (induction xs) auto

lemma ascii_join: "ascii sep \<Longrightarrow> (\<And>x. x \<in> set xs \<Longrightarrow> ascii x) \<Longrightarrow> ascii (join sep xs)"
  by (induction sep xs rule: join.induct) auto

lemma hex_digit_ascii: "d < 16 \<Longrightarrow> hex_digit d < 128"
  by (simp add: hex_digit_def)

lemma ascii_hex4 [simp]: "ascii (hex4 n)"
  by (simp add: hex4_def hex_digit_ascii)

lemma ascii_json_escape_char [simp]: "ascii (json_escape_char c)"
  by (simp add: json_escape_char_def)

lemma ascii_json_encode_string [simp]: "ascii (json_encode_string s)"
  by (auto simp: json_encode_string_def intro!: ascii_concat)

lemma ascii_digits_of_nat [simp]: "ascii (digits_of_nat n)"
proof (induction n rule: digits_of_nat.induct)
  case (1 n)
  have "n mod 10 < 10" by simp
  then have "48 + n mod 10 < 128" by linarith
  with 1 show ?case by (subst digits_of_nat.simps) simp
qed

lemma ascii_int_repr [simp]: "ascii (int_repr i)"
  by (simp add: int_repr_def)

lemma is_digit_ascii: "is_digit c \<Longrightarrow> c < 128"
  by (simp add: is_digit_def)

lemma takeWhile_digit_ascii: "ascii (takeWhile is_digit s)"
  by (induction s) (auto dest: is_digit_ascii)

lemma match_sign_parts: "match_sign s = (sg, r) \<Longrightarrow> s = sg @ r \<and> ascii sg"
  by (auto simp: match_sign_def split: list.splits if_splits)

lemma match_int_parts: "match_int s = Some (ds, r) \<Longrightarrow> s = ds @ r \<and> ascii ds"
  by (auto simp: match_int_def takeWhile_digit_ascii dest: is_digit_ascii
      split: list.splits if_splits)

lemma match_frac_parts: "match_frac s = (f, r) \<Longrightarrow> s = f @ r \<and> ascii f"
  by (auto simp: match_frac_def takeWhile_digit_ascii split: list.splits if_splits)

lemma match_exp_sign_parts: "match_exp_sign s = (sg, r) \<Longrightarrow> s = sg @ r \<and> ascii sg"
  by (auto simp: match_exp_sign_def split: list.splits if_splits)

lemma match_exp_parts: "match_exp s = (e, r) \<Longrightarrow> s = e @ r \<and> ascii e"
  by (auto simp: match_exp_def takeWhile_digit_ascii
      split: list.splits if_splits prod.splits dest!: match_exp_sign_parts)

lemma match_number_parts:
  "match_number s = Some (i, f, e, r) \<Longrightarrow> s = i @ f @ e @ r \<and> ascii i \<and> ascii f \<and> ascii e"
  by (auto simp: match_number_def split: prod.splits option.splits
      dest!: match_sign_parts match_int_parts match_frac_parts match_exp_parts)

lemma float_literal_ascii: "float_literal r \<Longrightarrow> ascii r"
  by (auto simp: float_literal_def split: option.splits dest!: match_number_parts)

lemma ascii_json_float: "wf_value (PFloat f) \<Longrightarrow> ascii (json_float f)"
  by (cases f) (simp_all add: json_float_def float_literal_ascii)

lemma ascii_json_text: "wf_value v \<Longrightarrow> ascii (json_text v)"
proof (induction v)
  case (PFloat f)
  then show ?case using ascii_json_float by simp
next
  case (PList xs)
  then show ?case by (auto intro!: ascii_join)
next
  case (PDict d)
  have "ascii (json_encode_string (fst kv) @ lit '': '' @ json_text (snd kv))"
    if "kv \<in> set d" for kv
  proof -
    from that PDict.prems have "wf_value (snd kv)" by simp
    moreover have "snd kv \<in> Basic_BNFs.snds kv"
      by (cases kv) simp
    ultimately have "ascii (json_text (snd kv))"
      using PDict.IH that by blast
    then show ?thesis by simp
  qed
  then show ?case by (auto intro!: ascii_join)
qed simp_all

lemma utf8_encode_ascii: "ascii s \<Longrightarrow> utf8_encode s = Some (map of_nat s)"
  by (induction s) (simp_all add: utf8_encode_char_def)

lemma utf8_decode_ascii: "ascii s \<Longrightarrow> utf8_decode (map of_nat s) = Some s"
proof (induction s)
  case Nil
  show ?case by (simp add: utf8_decode.simps)
next
  case (Cons c s)
  then have c: "c < 128" and s: "utf8_decode (map of_nat s) = Some s" by simp_all
  have "unat (of_nat c :: 8 word) = c"
    using c by (simp add: unat_of_nat)
  then show ?case
    using c s by (subst utf8_decode.simps) (simp add: prepend_cp_def)
qed

section \<open>The length prefix\<close>

lemma unat_byte: "n < 256 \<Longrightarrow> unat (of_nat n :: 8 word) = n"
  by (simp add: unat_of_nat)

lemma four_bytes_value:
  assumes "n < 2 ^ 32"
  shows "n mod 256 + 256 * (n div 256 mod 256) + 65536 * (n div 65536 mod 256)
           + 16777216 * (n div 16777216 mod 256) = (n::nat)"
proof -
  define a where "a = n div 256"
  define b where "b = a div 256"
  define c where "c = b div 256"
  have f1: "n = 256 * a + n mod 256" unfolding a_def by simp
  have f2: "a = 256 * b + a mod 256" unfolding b_def by simp
  have f3: "b = 256 * c + b mod 256" unfolding c_def by simp
  have b: "n div 65536 = b" unfolding b_def a_def by (simp add: div_mult2_eq)
  have c: "n div 16777216 = c" unfolding c_def b_def a_def by (simp add: div_mult2_eq)
  have "c < 256" using assms c by simp
  then have c': "c mod 256 = c" by simp
  have "n mod 256 + 256 * (a mod 256) + 65536 * (b mod 256) + 16777216 * c = n"
    using f1 f2 f3 by linarith
  then show ?thesis
    unfolding b c c' a_def [symmetric] .
qed

lemma struct_pack_unpack:
  assumes "n < 2 ^ 32"
  shows "\<exists>header. struct_pack_I P n = Some header \<and> length header = 4
           \<and> struct_unpack_I P header = Some n"
proof -
  have v: "unat (of_nat (n mod 256) :: 8 word) + 256 * unat (of_nat (n div 256 mod 256) :: 8 word)
        + 65536 * unat (of_nat (n div 65536 mod 256) :: 8 word)
        + 16777216 * unat (of_nat (n div 16777216 mod 256) :: 8 word) = n"
    using four_bytes_value [OF assms] by (simp only: unat_byte mod_less_divisor zero_less_numeral)
  show ?thesis
    using assms v
    by (cases "byteorder P") (simp_all add: struct_pack_I_def struct_unpack_I_def)
qed

lemma struct_pack_too_big: "2 ^ 32 \<le> n \<Longrightarrow> struct_pack_I P n = None"
  by (simp add: struct_pack_I_def)

section \<open>Frames written by \<open>send_message\<close>\<close>

text \<open>
  Three values that \<open>send_message\<close> does not send: a string of \<open>2^32\<close> characters,
  the integer \<open>10^k\<close>, which has \<open>k + 1\<close> digits, and the empty array inside \<open>n\<close>
  arrays, which is nested \<open>n + 1\<close> deep.
\<close>

definition four_gigabytes :: pyval where
  "four_gigabytes = PStr (replicate (2 ^ 32) 97)"

definition ten_to :: "nat \<Rightarrow> pyval" where
  "ten_to k = PInt (10 ^ k)"

fun nested :: "nat \<Rightarrow> pyval" where
  "nested 0 = PList []"
| "nested (Suc n) = PList [nested n]"

lemma send_message_writes:
  assumes "wf_value v" and "within_limits P SendMessage v" and "length (json_text v) < 2 ^ 32"
  shows "\<exists>header.
           struct_pack_I P (length (json_text v)) = Some header \<and>
           length header = 4 \<and>
           struct_unpack_I P header = Some (length (json_text v)) \<and>
           utf8_encode (json_text v) = Some (map of_nat (json_text v)) \<and>
           send_message P v out =
             \<lparr>delivered = delivered out @ pending out @ header @ map of_nat (json_text v),
              pending = []\<rparr>"
proof -
  have j: "json_dumps P SendMessage v = Some (json_text v)"
    using assms(2) by (simp add: json_dumps_def)
  have e: "utf8_encode (json_text v) = Some (map of_nat (json_text v))"
    using assms(1) by (simp add: ascii_json_text utf8_encode_ascii)
  from struct_pack_unpack [OF assms(3)] obtain header where
    h: "struct_pack_I P (length (json_text v)) = Some header" "length header = 4"
       "struct_unpack_I P header = Some (length (json_text v))"
    by blast
  have "send_message P v out =
          \<lparr>delivered = delivered out @ pending out @ header @ map of_nat (json_text v),
           pending = []\<rparr>"
    by (simp add: send_message_def j e h stdout_flush_def stdout_write_def)
  with e h show ?thesis by blast
qed

lemma beyond_limits_not_sent:
  "\<not> within_limits P SendMessage v \<Longrightarrow> send_message P v out = out"
  by (simp add: send_message_def json_dumps_def)

lemma concat_replicate_single: "concat (replicate n [x]) = replicate n x"
  by (induction n) simp_all

lemma json_text_four_gigabytes:
  "json_text four_gigabytes = [34] @ replicate (2 ^ 32) 97 @ [34]"
proof -
  have "json_escape_char 97 = [97]"
    by (simp add: json_escape_char_def)
  then show ?thesis
    by (simp add: four_gigabytes_def json_encode_string_def concat_replicate_single)
qed

lemma four_gigabytes_not_sent:
  "send_message P four_gigabytes out = out"
proof -
  have j: "json_dumps P SendMessage four_gigabytes = Some (json_text four_gigabytes)"
    by (simp add: json_dumps_def within_limits_def fits_def four_gigabytes_def)
  have "ascii (json_text four_gigabytes)"
    by (simp add: four_gigabytes_def)
  then have e: "utf8_encode (json_text four_gigabytes) = Some (map of_nat (json_text four_gigabytes))"
    by (rule utf8_encode_ascii)
  have "struct_pack_I P (length (map of_nat (json_text four_gigabytes) :: bytes)) = None"
    unfolding json_text_four_gigabytes by (rule struct_pack_too_big) simp
  then show ?thesis
    by (simp add: send_message_def j e)
qed

lemma digits_of_nat_times_10: "0 < n \<Longrightarrow> digits_of_nat (10 * n) = digits_of_nat n @ [48]"
  by (subst digits_of_nat.simps) simp

lemma digits_of_nat_power: "digits_of_nat (10 ^ k) = 49 # replicate k 48"
proof (induction k)
  case 0
  show ?case by (subst digits_of_nat.simps) simp
next
  case (Suc k)
  have "digits_of_nat (10 * 10 ^ k) = digits_of_nat (10 ^ k) @ [48]"
    by (rule digits_of_nat_times_10) simp
  then show ?case
    using Suc by (simp add: replicate_append_same)
qed

lemma int_digits_ten_to: "int_digits (10 ^ k) = Suc k"
proof -
  have "nat \<bar>10 ^ k :: int\<bar> = 10 ^ k"
    by (simp add: nat_power_eq)
  then show ?thesis
    by (simp add: int_digits_def nat_power_eq digits_of_nat_power)
qed

lemma ten_to_text: "json_text (ten_to k) = 49 # replicate k 48"
proof -
  have "nat (10 ^ k :: int) = 10 ^ k"
    by (simp add: nat_power_eq)
  then show ?thesis
    by (simp add: ten_to_def int_repr_def nat_power_eq digits_of_nat_power)
qed

lemma wf_ten_to: "wf_value (ten_to k)"
  by (simp add: ten_to_def)

lemma ten_to_not_sent:
  assumes "too_many_digits P (Suc k)"
  shows "send_message P (ten_to k) out = out"
  using assms
  by (intro beyond_limits_not_sent) (simp add: within_limits_def fits_def ten_to_def int_digits_ten_to)

lemma depth_nested: "depth (nested n) = Suc n"
  by (induction n) simp_all

lemma nested_text: "json_text (nested n) = replicate (Suc n) 91 @ replicate (Suc n) 93"
proof (induction n)
  case 0
  show ?case by simp
next
  case (Suc n)
  from Suc show ?case
    by (simp add: replicate_append_same)
qed

lemma wf_nested: "wf_value (nested n)"
  by (induction n) simp_all

lemma nested_not_sent:
  assumes "json_room P SendMessage < n"
  shows "send_message P (nested n) out = out"
  using assms
  by (intro beyond_limits_not_sent) (simp add: within_limits_def fits_def depth_nested)

text \<open>
  C8, as the code has it. For a value that \<open>json.dumps\<close> serialises (its arrays and
  objects are not nested deeper than the recursion limit allows, and none of its
  integers has more digits than the interpreter converts to text) and whose JSON text is
  shorter than \<open>2^32\<close> bytes, \<open>send_message\<close> writes one frame and flushes: after
  the call nothing is pending, and what was delivered has grown by a header of four
  bytes, which is the length of the payload in the byte order of the machine, followed
  by the payload, the UTF-8 encoding of the JSON text (the text is ASCII, so one byte for
  each character), and by nothing else.
\<close>

theorem send_message_frame:
  assumes "wf_value v" and "within_limits P SendMessage v" and "length (json_text v) < 2 ^ 32"
  shows "json_dumps P SendMessage v = Some (json_text v) \<and>
         (\<exists>header.
           struct_pack_I P (length (json_text v)) = Some header \<and>
           length header = 4 \<and>
           struct_unpack_I P header = Some (length (json_text v)) \<and>
           utf8_encode (json_text v) = Some (map of_nat (json_text v)) \<and>
           send_message P v out =
             \<lparr>delivered = delivered out @ pending out @ header @ map of_nat (json_text v),
              pending = []\<rparr>)"
  using send_message_writes [OF assms] assms(2) by (simp add: json_dumps_def)

theorem send_message_frame_witness:
  "wf_value (PDict [(lit ''type'', PStr (lit ''pong'')),
                    (lit ''echo'', PList [PFloat (FFinite (lit ''1.5'')), PStr [233], PNone])]) \<and>
   within_limits example_platform SendMessage
     (PDict [(lit ''type'', PStr (lit ''pong'')),
             (lit ''echo'', PList [PFloat (FFinite (lit ''1.5'')), PStr [233], PNone])]) \<and>
   send_message example_platform
     (PDict [(lit ''type'', PStr (lit ''pong'')),
             (lit ''echo'', PList [PFloat (FFinite (lit ''1.5'')), PStr [233], PNone])])
     empty_stdout =
   \<lparr>delivered = [47, 0, 0, 0]
       @ bytes_of ''{\"type\": \"pong\", \"echo\": [1.5, \"'' @ [92] @ bytes_of ''u00e9\", null]}'',
    pending = []\<rparr>"
proof -
  define v where "v = PDict [(lit ''type'', PStr (lit ''pong'')),
                    (lit ''echo'', PList [PFloat (FFinite (lit ''1.5'')), PStr [233], PNone])]"
  have w: "wf_value v"
    unfolding v_def by code_simp
  have i: "within_limits example_platform SendMessage v"
    unfolding v_def by code_simp
  have d: "json_text v = lit ''{\"type\": \"pong\", \"echo\": [1.5, \"'' @ [92] @ lit ''u00e9\", null]}''"
    unfolding v_def by code_simp
  have l: "length (json_text v) < 2 ^ 32"
    unfolding d by (simp add: lit_def)
  have p: "struct_pack_I example_platform (length (json_text v)) = Some [47, 0, 0, 0]"
    unfolding d by code_simp
  have b: "map of_nat (json_text v) =
      bytes_of ''{\"type\": \"pong\", \"echo\": [1.5, \"'' @ [92] @ bytes_of ''u00e9\", null]}''"
    unfolding d by code_simp
  from send_message_frame [OF w i l, of empty_stdout]
  have "send_message example_platform v empty_stdout =
      \<lparr>delivered = [47, 0, 0, 0]
         @ bytes_of ''{\"type\": \"pong\", \"echo\": [1.5, \"'' @ [92] @ bytes_of ''u00e9\", null]}'',
       pending = []\<rparr>"
    unfolding p b by (auto simp: empty_stdout_def)
  with w i show ?thesis unfolding v_def by simp
qed

theorem send_message_frame_counterexample:
  "wf_value four_gigabytes \<and>
   send_message example_platform four_gigabytes empty_stdout = empty_stdout \<and>
   wf_value (ten_to 4300) \<and> length (json_text (ten_to 4300)) = 4301 \<and>
   send_message example_platform (ten_to 4300) empty_stdout = empty_stdout \<and>
   wf_value (nested 1999) \<and> length (json_text (nested 1999)) = 4000 \<and>
   send_message example_platform (nested 1999) empty_stdout = empty_stdout"
proof -
  have a: "wf_value four_gigabytes"
    by (simp add: four_gigabytes_def wf_str_def)
  have b: "wf_value (ten_to 4300)"
    by (rule wf_ten_to)
  have c: "length (json_text (ten_to 4300)) = 4301"
    by (simp add: ten_to_text)
  have "too_many_digits example_platform (Suc 4300)"
    by (simp add: too_many_digits_def example_platform_def)
  then have d: "send_message example_platform (ten_to 4300) empty_stdout = empty_stdout"
    by (rule ten_to_not_sent)
  have e: "length (json_text (nested 1999)) = 4000"
    by (simp add: nested_text)
  have "json_room example_platform SendMessage < 1999"
    by (simp add: example_platform_def)
  then have f: "send_message example_platform (nested 1999) empty_stdout = empty_stdout"
    by (rule nested_not_sent)
  have g: "send_message example_platform four_gigabytes empty_stdout = empty_stdout"
    by (rule four_gigabytes_not_sent)
  have h: "wf_value (nested 1999)"
    by (rule wf_nested)
  from a b c d e f g h show ?thesis by blast
qed

section \<open>Reading back what \<open>json.dumps\<close> wrote\<close>

subsection \<open>Numbers\<close>

text \<open>What follows a value in the text of \<open>json.dumps\<close>: nothing, a comma or a closing bracket.\<close>

definition delim :: "pystr \<Rightarrow> bool" where
  "delim rest = (case rest of [] \<Rightarrow> True | c # _ \<Rightarrow> c = 44 \<or> c = 93 \<or> c = 125)"

lemma delim_not_digit: "delim (c # t) \<Longrightarrow> \<not> is_digit c"
  by (auto simp: delim_def is_digit_def)

lemma takeWhile_digit_delim: "delim rest \<Longrightarrow> takeWhile is_digit rest = []"
  by (cases rest) (auto dest: delim_not_digit)

lemma takeWhile_digit_append:
  "delim rest \<Longrightarrow> takeWhile is_digit (xs @ rest) = takeWhile is_digit xs"
  by (induction xs) (simp_all add: takeWhile_digit_delim)

lemma dropWhile_digit_append:
  "delim rest \<Longrightarrow> dropWhile is_digit (xs @ rest) = dropWhile is_digit xs @ rest"
proof (induction xs)
  case Nil
  then show ?case by (cases rest) (auto dest: delim_not_digit)
qed simp

lemma match_sign_append:
  "delim rest \<Longrightarrow> match_sign (s @ rest) = (fst (match_sign s), snd (match_sign s) @ rest)"
  by (cases s; cases rest) (auto simp: match_sign_def delim_def)

lemma match_int_append:
  "delim rest \<Longrightarrow> match_int s = Some (ds, r) \<Longrightarrow> match_int (s @ rest) = Some (ds, r @ rest)"
  using takeWhile_digit_append [of rest s] dropWhile_digit_append [of rest s]
  by (cases s) (auto simp: match_int_def split: if_splits)

lemma match_frac_append:
  "delim rest \<Longrightarrow> match_frac (s @ rest) = (fst (match_frac s), snd (match_frac s) @ rest)"
proof (cases s)
  case Nil
  assume "delim rest"
  then show ?thesis using Nil by (cases rest) (auto simp: match_frac_def delim_def)
next
  case (Cons d t)
  assume "delim rest"
  then show ?thesis
    using Cons takeWhile_digit_append [of rest t] dropWhile_digit_append [of rest t]
    by (simp add: match_frac_def)
qed

lemma match_exp_sign_append:
  "delim rest \<Longrightarrow>
   match_exp_sign (s @ rest) = (fst (match_exp_sign s), snd (match_exp_sign s) @ rest)"
  by (cases s; cases rest) (auto simp: match_exp_sign_def delim_def)

lemma match_exp_append:
  "delim rest \<Longrightarrow> match_exp (s @ rest) = (fst (match_exp s), snd (match_exp s) @ rest)"
proof (cases s)
  case Nil
  assume "delim rest"
  then show ?thesis using Nil by (cases rest) (auto simp: match_exp_def delim_def)
next
  case (Cons e t)
  assume d: "delim rest"
  obtain sg t' where m: "match_exp_sign t = (sg, t')" by (cases "match_exp_sign t")
  then have "match_exp_sign (t @ rest) = (sg, t' @ rest)"
    using match_exp_sign_append [OF d, of t] by simp
  then show ?thesis
    using Cons m takeWhile_digit_append [OF d, of t'] dropWhile_digit_append [OF d, of t']
    by (simp add: match_exp_def)
qed

lemma match_number_append:
  assumes "delim rest" and "match_number s = Some (i, f, e, r)"
  shows "match_number (s @ rest) = Some (i, f, e, r @ rest)"
proof -
  obtain sg s1 where a: "match_sign s = (sg, s1)" by (cases "match_sign s")
  with assms(2) obtain ds s2 where b: "match_int s1 = Some (ds, s2)"
    by (auto simp: match_number_def split: option.splits)
  obtain f' s3 where c: "match_frac s2 = (f', s3)" by (cases "match_frac s2")
  obtain e' s4 where d: "match_exp s3 = (e', s4)" by (cases "match_exp s3")
  from assms(2) a b c d have eq: "i = sg @ ds" "f = f'" "e = e'" "r = s4"
    by (simp_all add: match_number_def)
  have a': "match_sign (s @ rest) = (sg, s1 @ rest)"
    using match_sign_append [OF assms(1), of s] a by simp
  have b': "match_int (s1 @ rest) = Some (ds, s2 @ rest)"
    using match_int_append [OF assms(1) b] .
  have c': "match_frac (s2 @ rest) = (f', s3 @ rest)"
    using match_frac_append [OF assms(1), of s2] c by simp
  have d': "match_exp (s3 @ rest) = (e', s4 @ rest)"
    using match_exp_append [OF assms(1), of s3] d by simp
  show ?thesis
    by (simp add: match_number_def a' b' c' d' eq)
qed

lemma digits_of_nat_digits: "c \<in> set (digits_of_nat n) \<Longrightarrow> is_digit c"
proof (induction n arbitrary: c rule: digits_of_nat.induct)
  case (1 n)
  have "n mod 10 < 10" by simp
  then have "is_digit (48 + n mod 10)" by (simp add: is_digit_def)
  with 1 show ?case
    by (subst (asm) (2) digits_of_nat.simps) (auto simp: is_digit_def split: if_splits)
qed

lemma digits_of_nat_nonempty: "digits_of_nat n \<noteq> []"
  by (subst digits_of_nat.simps) simp

lemma digits_of_nat_hd: "0 < n \<Longrightarrow> hd (digits_of_nat n) \<noteq> 48"
proof (induction n rule: digits_of_nat.induct)
  case (1 n)
  show ?case
  proof (cases "n < 10")
    case True
    with 1 show ?thesis by (subst digits_of_nat.simps) simp
  next
    case False
    then have "0 < n div 10" by simp
    with 1 False have "hd (digits_of_nat (n div 10)) \<noteq> 48" by simp
    with False show ?thesis
      by (subst digits_of_nat.simps) (simp add: digits_of_nat_nonempty)
  qed
qed

lemma digits_of_nat_zero: "digits_of_nat 0 = [48]"
  by (subst digits_of_nat.simps) simp

lemma nat_of_digits_snoc: "nat_of_digits (ds @ [d]) = 10 * nat_of_digits ds + (d - 48)"
  by (simp add: nat_of_digits_def)

lemma nat_of_digits_of_nat: "nat_of_digits (digits_of_nat n) = n"
proof (induction n rule: digits_of_nat.induct)
  case (1 n)
  show ?case
  proof (cases "n < 10")
    case True
    then show ?thesis by (subst digits_of_nat.simps) (simp add: nat_of_digits_def)
  next
    case False
    with 1 show ?thesis
      by (subst digits_of_nat.simps) (simp add: nat_of_digits_snoc)
  qed
qed

lemma takeWhile_digits_of_nat: "takeWhile is_digit (digits_of_nat n) = digits_of_nat n"
  by (simp add: takeWhile_eq_all_conv digits_of_nat_digits)

lemma dropWhile_digits_of_nat: "dropWhile is_digit (digits_of_nat n) = []"
  by (simp add: dropWhile_eq_Nil_conv digits_of_nat_digits)

lemma match_int_digits: "match_int (digits_of_nat n) = Some (digits_of_nat n, [])"
proof (cases "n = 0")
  case True
  then show ?thesis by (simp add: digits_of_nat_zero match_int_def is_digit_def)
next
  case False
  obtain c t where ct: "digits_of_nat n = c # t"
    using digits_of_nat_nonempty [of n] by (cases "digits_of_nat n") auto
  then have "is_digit c" using digits_of_nat_digits [of c n] by simp
  moreover have "c \<noteq> 48" using digits_of_nat_hd [of n] False ct by simp
  ultimately show ?thesis
    using takeWhile_digits_of_nat [of n] dropWhile_digits_of_nat [of n] ct
    by (simp add: match_int_def)
qed

lemma digits_of_nat_not_minus: "digits_of_nat n = c # t \<Longrightarrow> c \<noteq> 45"
  using digits_of_nat_digits [of c n] by (auto simp: is_digit_def)

lemma match_number_int_repr: "match_number (int_repr i) = Some (int_repr i, [], [], [])"
proof (cases "i < 0")
  case True
  then show ?thesis
    by (simp add: int_repr_def match_number_def match_sign_def match_int_digits
        match_frac_def match_exp_def)
next
  case False
  obtain c t where ct: "digits_of_nat (nat i) = c # t"
    using digits_of_nat_nonempty [of "nat i"] by (cases "digits_of_nat (nat i)") auto
  have "match_sign (digits_of_nat (nat i)) = ([], digits_of_nat (nat i))"
    using ct digits_of_nat_not_minus [OF ct] by (simp add: match_sign_def)
  then show ?thesis
    using False
    by (simp add: int_repr_def match_number_def match_int_digits match_frac_def match_exp_def)
qed

lemma int_of_literal_int_repr: "int_of_literal (int_repr i) = i"
proof (cases "i < 0")
  case True
  then show ?thesis
    by (simp add: int_repr_def int_of_literal_def nat_of_digits_of_nat)
next
  case False
  obtain c t where ct: "digits_of_nat (nat i) = c # t"
    using digits_of_nat_nonempty [of "nat i"] by (cases "digits_of_nat (nat i)") auto
  have "int_of_literal (c # t) = int (nat_of_digits (c # t))"
    using digits_of_nat_not_minus [OF ct] by (simp add: int_of_literal_def)
  then show ?thesis
    using False nat_of_digits_of_nat [of "nat i"] by (simp add: int_repr_def ct)
qed

lemma match_number_first:
  "match_number s = Some (i, f, e, r) \<Longrightarrow> \<exists>c t. s = c # t \<and> (c = 45 \<or> is_digit c)"
  by (cases s)
    (auto simp: match_number_def match_sign_def match_int_def
      split: if_splits option.splits prod.splits list.splits)

subsection \<open>Strings\<close>

definition is_high :: "nat \<Rightarrow> bool" where
  "is_high c = (55296 \<le> c \<and> c \<le> 56319)"

definition is_low :: "nat \<Rightarrow> bool" where
  "is_low c = (56320 \<le> c \<and> c \<le> 57343)"

text \<open>
  No high surrogate stands immediately before a low surrogate. Two such code points are
  written as two escapes, which reading joins into one character.
\<close>

fun no_surrogate_pair :: "pystr \<Rightarrow> bool" where
  "no_surrogate_pair [] = True"
| "no_surrogate_pair [c] = True"
| "no_surrogate_pair (c # d # t) = (\<not> (is_high c \<and> is_low d) \<and> no_surrogate_pair (d # t))"

lemma hex_value_hex_digit: "d < 16 \<Longrightarrow> hex_value (hex_digit d) = Some d"
  by (auto simp: hex_value_def hex_digit_def)

lemma hex4_value:
  assumes "n < 65536"
  shows "4096 * (n div 4096 mod 16) + 256 * (n div 256 mod 16) + 16 * (n div 16 mod 16)
           + n mod 16 = (n::nat)"
proof -
  define a where "a = n div 16"
  define b where "b = a div 16"
  define c where "c = b div 16"
  have f1: "n = 16 * a + n mod 16" unfolding a_def by simp
  have f2: "a = 16 * b + a mod 16" unfolding b_def by simp
  have f3: "b = 16 * c + b mod 16" unfolding c_def by simp
  have b: "n div 256 = b" unfolding b_def a_def by (simp add: div_mult2_eq)
  have c: "n div 4096 = c" unfolding c_def b_def a_def by (simp add: div_mult2_eq)
  have "c < 16" using assms c by simp
  then have c': "c mod 16 = c" by simp
  have "4096 * c + 256 * (b mod 16) + 16 * (a mod 16) + n mod 16 = n"
    using f1 f2 f3 by linarith
  then show ?thesis
    unfolding b c c' a_def [symmetric] .
qed

lemma decode_hex4: "n < 65536 \<Longrightarrow> decode_uXXXX (hex4 n @ t) = Some n"
  using hex4_value [of n]
  by (simp add: decode_uXXXX_def hex4_def hex_value_hex_digit)

lemma length_hex4 [simp]: "length (hex4 n) = 4"
  by (simp add: hex4_def)

text \<open>What may follow the escape of a high surrogate: not the escape of a low one.\<close>

definition next_ok :: "pystr \<Rightarrow> bool" where
  "next_ok t = (take 2 t = [92, 117] \<longrightarrow> (\<exists>u. decode_uXXXX (drop 2 t) = Some u \<and> \<not> is_low u))"

lemma surrogate_halves:
  assumes "65536 \<le> c" and "c < 1114112"
  shows "is_high (55296 + (c - 65536) div 1024 mod 1024)"
    and "is_low (56320 + (c - 65536) mod 1024)"
    and "65536 + ((55296 + (c - 65536) div 1024 mod 1024 - 55296) * 1024
           + (56320 + (c - 65536) mod 1024 - 56320)) = c"
proof -
  have "(c - 65536) div 1024 < 1024" using assms by simp
  then have m: "(c - 65536) div 1024 mod 1024 = (c - 65536) div 1024" by simp
  have "(c - 65536) mod 1024 < 1024" by simp
  then show "is_low (56320 + (c - 65536) mod 1024)" by (simp add: is_low_def)
  show "is_high (55296 + (c - 65536) div 1024 mod 1024)"
    unfolding m using \<open>(c - 65536) div 1024 < 1024\<close> by (simp add: is_high_def)
  have "(c - 65536) div 1024 * 1024 + (c - 65536) mod 1024 = c - 65536" by simp
  then show "65536 + ((55296 + (c - 65536) div 1024 mod 1024 - 55296) * 1024
           + (56320 + (c - 65536) mod 1024 - 56320)) = c"
    unfolding m using assms(1) by simp
qed

lemma drop_hex4 [simp]: "drop 4 (hex4 n @ t) = t" "drop 6 (hex4 n @ t) = drop 2 t"
  by (simp_all add: hex4_def)

lemma scanstring_u_escape:
  assumes "n < 65536" and "is_high n \<Longrightarrow> next_ok t"
  shows "scanstring ([92, 117] @ hex4 n @ t) = prepend n (scanstring t)"
proof (cases "is_high n \<and> take 2 t = [92, 117]")
  case True
  with assms(2) obtain u where u: "decode_uXXXX (drop 2 t) = Some u" "\<not> is_low u"
    by (auto simp: next_ok_def)
  show ?thesis
    using True u assms(1)
    by (subst scanstring.simps) (auto simp: decode_hex4 is_high_def is_low_def)
next
  case False
  then show ?thesis
    using assms(1)
    by (subst scanstring.simps) (auto simp: decode_hex4 is_high_def)
qed

lemma scanstring_pair_escape:
  assumes "is_high h" and "is_low l"
  shows "scanstring ([92, 117] @ hex4 h @ [92, 117] @ hex4 l @ t)
         = prepend (65536 + ((h - 55296) * 1024 + (l - 56320))) (scanstring t)"
proof -
  have h: "h < 65536" and l: "l < 65536"
    using assms by (simp_all add: is_high_def is_low_def)
  have d: "decode_uXXXX (hex4 h @ 92 # 117 # hex4 l @ t) = Some h"
    using decode_hex4 [OF h] by simp
  have "drop 10 (hex4 h @ 92 # 117 # hex4 l @ t) = t"
    by (simp add: hex4_def)
  then show ?thesis
    using assms d decode_hex4 [OF l, of t]
    by (subst scanstring.simps) (simp add: is_high_def is_low_def)
qed

lemma scanstring_escape:
  assumes "c < 1114112" and "is_high c \<Longrightarrow> next_ok t"
  shows "scanstring (json_escape_char c @ t) = prepend c (scanstring t)"
proof -
  consider (short) "c = 92 \<or> c = 34 \<or> c = 8 \<or> c = 12 \<or> c = 10 \<or> c = 13 \<or> c = 9"
    | (plain) "32 \<le> c" "c \<le> 126" "c \<noteq> 92" "c \<noteq> 34"
    | (bmp) "\<not> (32 \<le> c \<and> c \<le> 126)" "c < 65536"
        "c \<noteq> 8" "c \<noteq> 12" "c \<noteq> 10" "c \<noteq> 13" "c \<noteq> 9"
    | (astral) "65536 \<le> c"
    by linarith
  then show ?thesis
  proof cases
    case short
    then show ?thesis
      by (subst scanstring.simps) (auto simp: json_escape_char_def backslash_def)
  next
    case plain
    then show ?thesis
      by (subst scanstring.simps) (simp add: json_escape_char_def)
  next
    case bmp
    then have "json_escape_char c = [92, 117] @ hex4 c"
      by (auto simp: json_escape_char_def)
    then show ?thesis
      using scanstring_u_escape [OF bmp(2) assms(2)] by simp
  next
    case astral
    then have "json_escape_char c =
        [92, 117] @ hex4 (55296 + (c - 65536) div 1024 mod 1024)
        @ [92, 117] @ hex4 (56320 + (c - 65536) mod 1024)"
      by (auto simp: json_escape_char_def)
    then show ?thesis
      using scanstring_pair_escape [OF surrogate_halves(1,2) [OF astral assms(1)], of t]
        surrogate_halves(3) [OF astral assms(1)]
      by simp
  qed
qed

lemma next_ok_escape:
  assumes "d < 1114112" and "\<not> is_low d"
  shows "next_ok (json_escape_char d @ t)"
proof -
  consider (short) "d = 92 \<or> d = 34 \<or> d = 8 \<or> d = 12 \<or> d = 10 \<or> d = 13 \<or> d = 9"
    | (plain) "32 \<le> d" "d \<le> 126" "d \<noteq> 92" "d \<noteq> 34"
    | (bmp) "\<not> (32 \<le> d \<and> d \<le> 126)" "d < 65536"
        "d \<noteq> 8" "d \<noteq> 12" "d \<noteq> 10" "d \<noteq> 13" "d \<noteq> 9"
    | (astral) "65536 \<le> d"
    by linarith
  then show ?thesis
  proof cases
    case short
    then show ?thesis by (auto simp: next_ok_def json_escape_char_def)
  next
    case plain
    then show ?thesis by (simp add: next_ok_def json_escape_char_def)
  next
    case bmp
    then have "json_escape_char d = [92, 117] @ hex4 d"
      by (auto simp: json_escape_char_def)
    then show ?thesis
      using decode_hex4 [OF bmp(2), of t] assms(2) by (simp add: next_ok_def)
  next
    case astral
    define h where "h = 55296 + (d - 65536) div 1024 mod 1024"
    have hh: "is_high h"
      unfolding h_def by (rule surrogate_halves(1) [OF astral assms(1)])
    then have "h < 65536" "\<not> is_low h"
      by (simp_all add: is_high_def is_low_def)
    moreover have "json_escape_char d =
        [92, 117] @ hex4 h @ [92, 117] @ hex4 (56320 + (d - 65536) mod 1024)"
      using astral by (auto simp: json_escape_char_def h_def)
    ultimately show ?thesis
      using decode_hex4 [of h] by (simp add: next_ok_def)
  qed
qed

lemma next_ok_quote: "next_ok (34 # t)"
  by (simp add: next_ok_def)

lemma scanstring_quote: "scanstring (34 # t) = Some ([], t)"
  by (subst scanstring.simps) simp

lemma scanstring_escaped:
  assumes "wf_str s" and "no_surrogate_pair s"
  shows "scanstring (concat (map json_escape_char s) @ 34 # rest) = Some (s, rest)"
  using assms
proof (induction s rule: no_surrogate_pair.induct)
  case (3 c d t)
  then have c: "c < 1114112" and d: "d < 1114112" and np: "\<not> (is_high c \<and> is_low d)"
    and w: "wf_str (d # t)" and n: "no_surrogate_pair (d # t)"
    by (simp_all add: wf_str_def)
  have IH: "scanstring (concat (map json_escape_char (d # t)) @ 34 # rest) = Some (d # t, rest)"
    using "3.IH" w n by blast
  have "is_high c \<Longrightarrow> next_ok (json_escape_char d @ concat (map json_escape_char t) @ 34 # rest)"
    using np d by (auto intro: next_ok_escape)
  then have "scanstring (json_escape_char c @ concat (map json_escape_char (d # t)) @ 34 # rest)
      = prepend c (scanstring (concat (map json_escape_char (d # t)) @ 34 # rest))"
    using scanstring_escape [OF c] by simp
  then show ?case
    using IH by (simp add: prepend_def)
next
  case 1
  show ?case by (simp add: scanstring_quote)
next
  case (2 c)
  then have c: "c < 1114112" by (simp add: wf_str_def)
  have "scanstring (json_escape_char c @ 34 # rest) = prepend c (scanstring (34 # rest))"
    using scanstring_escape [OF c, of "34 # rest"] next_ok_quote by simp
  then show ?case
    by (simp add: scanstring_quote prepend_def)
qed

subsection \<open>Values\<close>

fun strings_of :: "pyval \<Rightarrow> pystr list" where
  "strings_of (PStr s) = [s]"
| "strings_of (PList xs) = concat (map strings_of xs)"
| "strings_of (PDict d) = concat (map (\<lambda>kv. fst kv # strings_of (snd kv)) d)"
| "strings_of v = []"

fun floats_of :: "pyval \<Rightarrow> pystr list" where
  "floats_of (PFloat f) = (case f of FFinite r \<Rightarrow> [r] | _ \<Rightarrow> [])"
| "floats_of (PList xs) = concat (map floats_of xs)"
| "floats_of (PDict d) = concat (map (\<lambda>kv. floats_of (snd kv)) d)"
| "floats_of v = []"

text \<open>
  The values that are read back as they were written: well formed, no string with a high
  surrogate immediately before a low one, and every float one whose \<open>repr\<close> the
  platform converts back to it.
\<close>

definition reads_back :: "platform \<Rightarrow> pyval \<Rightarrow> bool" where
  "reads_back P v =
    (wf_value v \<and> (\<forall>s \<in> set (strings_of v). no_surrogate_pair s)
     \<and> (\<forall>r \<in> set (floats_of v). float_of_literal P r = FFinite r))"

lemma reads_back_PList: "reads_back P (PList xs) \<longleftrightarrow> (\<forall>x \<in> set xs. reads_back P x)"
  by (auto simp: reads_back_def)

lemma reads_back_PDict:
  "reads_back P (PDict d) \<longleftrightarrow>
     distinct (map fst d) \<and>
     (\<forall>kv \<in> set d. wf_str (fst kv) \<and> no_surrogate_pair (fst kv) \<and> reads_back P (snd kv))"
  by (auto simp: reads_back_def)

lemma skip_ws_Cons: "\<not> is_ws c \<Longrightarrow> skip_ws (c # s) = c # s"
  by (simp add: skip_ws_def)

lemma skip_ws_space: "skip_ws (32 # s) = skip_ws s"
  by (simp add: skip_ws_def is_ws_def)

lemma skip_ws_Nil: "skip_ws [] = []"
  by (simp add: skip_ws_def)

text \<open>The first character of the text of a value.\<close>

definition starts_value :: "pystr \<Rightarrow> bool" where
  "starts_value s = (case s of [] \<Rightarrow> False | c # _ \<Rightarrow> \<not> is_ws c \<and> c \<noteq> 93)"

lemma starts_value_append: "starts_value s \<Longrightarrow> starts_value (s @ t)"
  by (cases s) (simp_all add: starts_value_def)

lemma skip_ws_starts_value: "starts_value s \<Longrightarrow> skip_ws s = s"
  by (cases s) (simp_all add: starts_value_def skip_ws_Cons)

lemma starts_value_digits: "starts_value (digits_of_nat n)"
proof -
  obtain c t where ct: "digits_of_nat n = c # t"
    using digits_of_nat_nonempty [of n] by (cases "digits_of_nat n") auto
  then have "is_digit c" using digits_of_nat_digits [of c n] by simp
  then show ?thesis using ct by (simp add: starts_value_def is_digit_def is_ws_def)
qed

lemma starts_value_number: "match_number s = Some (i, f, e, r) \<Longrightarrow> starts_value s"
  by (auto dest!: match_number_first simp: starts_value_def is_digit_def is_ws_def)

lemma starts_value_json_text: "wf_value v \<Longrightarrow> starts_value (json_text v)"
proof (cases v)
  case (PInt i)
  then show ?thesis
    using starts_value_digits
    by (auto simp: int_repr_def) (simp add: starts_value_def is_ws_def)
next
  case (PFloat f)
  assume "wf_value v"
  with PFloat show ?thesis
    by (cases f)
      (auto simp: json_float_def float_literal_def lit_def starts_value_def is_ws_def
        split: option.splits dest!: starts_value_number)
qed (simp_all add: lit_def starts_value_def is_ws_def json_encode_string_def)

lemma scan_once_number:
  assumes "match_number s = Some (i, f, e, r)"
  shows "scan_once P n s =
    (if f \<noteq> [] \<or> e \<noteq> [] then Some (PFloat (float_of_literal P (i @ f @ e)), r)
     else if too_many_digits P (length (filter is_digit i)) then None
     else Some (PInt (int_of_literal i), r))"
proof -
  from match_number_first [OF assms] obtain c t where
    ct: "s = c # t" "c = 45 \<or> is_digit c" by blast
  then have "scan_once P n s = scan_atom P s"
    by (subst scan_once.simps) (auto simp: is_digit_def)
  moreover have "take 4 s \<noteq> lit ''null''" "take 4 s \<noteq> lit ''true''" "take 5 s \<noteq> lit ''false''"
    using ct by (auto simp: lit_def is_digit_def)
  ultimately show ?thesis
    using assms by (simp add: scan_atom_def)
qed

lemma scan_once_PNone: "scan_once P n (lit ''null'' @ rest) = Some (PNone, rest)"
  by (subst scan_once.simps) (simp add: lit_def scan_atom_def)

lemma scan_once_True: "scan_once P n (lit ''true'' @ rest) = Some (PBool True, rest)"
  by (subst scan_once.simps) (simp add: lit_def scan_atom_def)

lemma scan_once_False: "scan_once P n (lit ''false'' @ rest) = Some (PBool False, rest)"
  by (subst scan_once.simps) (simp add: lit_def scan_atom_def)

lemma scan_once_NaN: "scan_once P n (lit ''NaN'' @ rest) = Some (PFloat FNaN, rest)"
  by (subst scan_once.simps)
    (simp add: lit_def scan_atom_def match_number_def match_sign_def match_int_def is_digit_def)

lemma scan_once_Infinity: "scan_once P n (lit ''Infinity'' @ rest) = Some (PFloat FInf, rest)"
  by (subst scan_once.simps)
    (simp add: lit_def scan_atom_def match_number_def match_sign_def match_int_def is_digit_def)

lemma scan_once_NegInfinity: "scan_once P n (lit ''-Infinity'' @ rest) = Some (PFloat FNegInf, rest)"
  by (subst scan_once.simps)
    (simp add: lit_def scan_atom_def match_number_def match_sign_def match_int_def is_digit_def)

lemma filter_digits_of_nat: "filter is_digit (digits_of_nat n) = digits_of_nat n"
  using digits_of_nat_digits [of _ n] by (simp add: filter_id_conv)

lemma digits_int_repr: "length (filter is_digit (int_repr i)) = int_digits i"
proof (cases "i < 0")
  case True
  then have "nat \<bar>i\<bar> = nat (- i)" by simp
  then show ?thesis
    using True by (simp add: int_repr_def int_digits_def filter_digits_of_nat is_digit_def)
next
  case False
  then have "nat \<bar>i\<bar> = nat i" by simp
  then show ?thesis
    using False by (simp add: int_repr_def int_digits_def filter_digits_of_nat)
qed

lemma scan_once_PInt:
  assumes "delim rest" and "\<not> too_many_digits P (int_digits i)"
  shows "scan_once P n (int_repr i @ rest) = Some (PInt i, rest)"
  using scan_once_number [OF match_number_append [OF assms(1) match_number_int_repr], of P n i]
    assms(2)
  by (simp add: int_of_literal_int_repr digits_int_repr)

lemma scan_once_PFloat:
  assumes "delim rest" and "reads_back P (PFloat f)"
  shows "scan_once P n (json_float f @ rest) = Some (PFloat f, rest)"
proof (cases f)
  case (FFinite r)
  with assms(2) have lit: "float_literal r" and ex: "float_of_literal P r = FFinite r"
    by (simp_all add: reads_back_def)
  from lit obtain i fr e where m: "match_number r = Some (i, fr, e, [])" "fr \<noteq> [] \<or> e \<noteq> []"
    by (auto simp: float_literal_def split: option.splits)
  then have r: "r = i @ fr @ e"
    using match_number_parts [of r i fr e "[]"] by simp
  have "match_number (r @ rest) = Some (i, fr, e, rest)"
    using match_number_append [OF assms(1) m(1)] by simp
  then show ?thesis
    using scan_once_number [of "r @ rest" i fr e rest P n] m(2) r ex FFinite
    by (auto simp: json_float_def)
qed (simp_all add: json_float_def scan_once_NaN scan_once_Infinity scan_once_NegInfinity)

lemma scan_once_PStr:
  assumes "wf_str s" and "no_surrogate_pair s"
  shows "scan_once P n (json_encode_string s @ rest) = Some (PStr s, rest)"
  using scanstring_escaped [OF assms, of rest]
  by (subst scan_once.simps) (simp add: json_encode_string_def)

subsection \<open>Arrays and objects\<close>

lemma join_Cons:
  "join sep (x # xs) = x @ (case xs of [] \<Rightarrow> [] | _ \<Rightarrow> sep @ join sep xs)"
  by (cases xs) simp_all

lemma delim_simps [simp]: "delim []" "delim (44 # t)" "delim (93 # t)" "delim (125 # t)"
  by (simp_all add: delim_def)

lemma not_ws_simps [simp]: "\<not> is_ws 44" "\<not> is_ws 93" "\<not> is_ws 125" "\<not> is_ws 58" "\<not> is_ws 34"
  by (simp_all add: is_ws_def)

lemma parse_array_items:
  assumes "\<And>x rest. x \<in> set (y # ys) \<Longrightarrow> delim rest \<Longrightarrow>
             scan_once P n (json_text x @ rest) = Some (x, rest)"
    and "\<And>x. x \<in> set (y # ys) \<Longrightarrow> starts_value (json_text x)"
  shows "parse_array P n (join (lit '', '') (map json_text (y # ys)) @ 93 # rest)
         = Some (y # ys, rest)"
  using assms
proof (induction ys arbitrary: y)
  case Nil
  have "scan_once P n (json_text y @ 93 # rest) = Some (y, 93 # rest)"
    using Nil(1) by simp
  then show ?case
    by (subst parse_array.simps) (simp add: skip_ws_Cons)
next
  case (Cons z zs)
  define tail where "tail = join (lit '', '') (map json_text (z # zs)) @ 93 # rest"
  have sc: "scan_once P n (json_text y @ 44 # 32 # tail) = Some (y, 44 # 32 # tail)"
    using Cons.prems(1) by simp
  have "starts_value (json_text z)" using Cons.prems(2) by simp
  then have "starts_value tail"
    unfolding tail_def by (simp add: join_Cons starts_value_append)
  then have sk: "skip_ws (32 # tail) = tail"
    by (simp add: skip_ws_space skip_ws_starts_value)
  have IH: "parse_array P n tail = Some (z # zs, rest)"
    unfolding tail_def using Cons.IH [of z] Cons.prems by simp
  have "parse_array P n (json_text y @ 44 # 32 # tail) = Some (y # z # zs, rest)"
    by (subst parse_array.simps) (simp add: sc skip_ws_Cons sk IH)
  moreover have "join (lit '', '') (map json_text (y # z # zs)) @ 93 # rest
      = json_text y @ 44 # 32 # tail"
    unfolding tail_def by (simp add: lit_def)
  ultimately show ?case by simp
qed

text \<open>One \<open>"key": value\<close> item of an object, without its opening quote.\<close>

definition item_tail :: "pystr \<times> pyval \<Rightarrow> pystr" where
  "item_tail kv = concat (map json_escape_char (fst kv)) @ [34] @ lit '': '' @ json_text (snd kv)"

lemma item_eq:
  "json_encode_string (fst kv) @ lit '': '' @ json_text (snd kv) = 34 # item_tail kv"
  by (simp add: json_encode_string_def item_tail_def)

lemma parse_object_items:
  assumes "\<And>kv rest. kv \<in> set (y # ys) \<Longrightarrow> delim rest \<Longrightarrow>
             scan_once P n (json_text (snd kv) @ rest) = Some (snd kv, rest)"
    and "\<And>kv. kv \<in> set (y # ys) \<Longrightarrow> starts_value (json_text (snd kv))"
    and "\<And>kv. kv \<in> set (y # ys) \<Longrightarrow> wf_str (fst kv) \<and> no_surrogate_pair (fst kv)"
  shows "parse_object P n
           (item_tail y @ (case ys of [] \<Rightarrow> [] | _ \<Rightarrow>
              lit '', '' @ join (lit '', '') (map (\<lambda>kv. 34 # item_tail kv) ys)) @ 125 # rest)
         = Some (y # ys, rest)"
  using assms
proof (induction ys arbitrary: y)
  case Nil
  obtain k v where y: "y = (k, v)" by (cases y)
  have ks: "scanstring (concat (map json_escape_char k) @ 34 # 58 # 32 # json_text v @ 125 # rest)
      = Some (k, 58 # 32 # json_text v @ 125 # rest)"
    using scanstring_escaped [of k] Nil(3) [of y] y by simp
  have sv: "skip_ws (32 # json_text v @ 125 # rest) = json_text v @ 125 # rest"
    using Nil(2) [of y] y
    by (simp add: skip_ws_space skip_ws_starts_value starts_value_append)
  have sc: "scan_once P n (json_text v @ 125 # rest) = Some (v, 125 # rest)"
    using Nil(1) [of y] y by simp
  show ?case
    by (subst parse_object.simps)
      (simp add: y item_tail_def lit_def ks skip_ws_Cons sv sc)
next
  case (Cons z zs)
  obtain k v where y: "y = (k, v)" by (cases y)
  define more where "more = item_tail z @ (case zs of [] \<Rightarrow> [] | _ \<Rightarrow>
      lit '', '' @ join (lit '', '') (map (\<lambda>kv. 34 # item_tail kv) zs)) @ 125 # rest"
  have IH: "parse_object P n more = Some (z # zs, rest)"
    unfolding more_def using Cons.IH [of z] Cons.prems by simp
  have ks: "scanstring (concat (map json_escape_char k) @ 34 # 58 # 32 # json_text v
        @ 44 # 32 # 34 # more)
      = Some (k, 58 # 32 # json_text v @ 44 # 32 # 34 # more)"
    using scanstring_escaped [of k] Cons.prems(3) [of y] y by simp
  have sv: "skip_ws (32 # json_text v @ 44 # 32 # 34 # more)
      = json_text v @ 44 # 32 # 34 # more"
    using Cons.prems(2) [of y] y
    by (simp add: skip_ws_space skip_ws_starts_value starts_value_append)
  have sc: "scan_once P n (json_text v @ 44 # 32 # 34 # more) = Some (v, 44 # 32 # 34 # more)"
    using Cons.prems(1) [of y] y by simp
  have sq: "skip_ws (32 # 34 # more) = 34 # more"
    by (simp add: skip_ws_space skip_ws_Cons)
  have "parse_object P n (concat (map json_escape_char k) @ 34 # 58 # 32 # json_text v
        @ 44 # 32 # 34 # more) = Some ((k, v) # z # zs, rest)"
    by (subst parse_object.simps) (simp add: ks skip_ws_Cons sv sc sq IH)
  moreover have "item_tail y @ (case z # zs of [] \<Rightarrow> [] | _ \<Rightarrow>
              lit '', '' @ join (lit '', '') (map (\<lambda>kv. 34 # item_tail kv) (z # zs))) @ 125 # rest
      = concat (map json_escape_char k) @ 34 # 58 # 32 # json_text v @ 44 # 32 # 34 # more"
    unfolding more_def by (cases zs) (simp_all add: y item_tail_def [of "(k, v)"] lit_def)
  ultimately show ?case by (simp only: y)
qed

lemma dict_set_fresh: "k \<notin> fst ` set d \<Longrightarrow> dict_set d k v = d @ [(k, v)]"
  by (induction d) auto

lemma dict_merge_distinct:
  "distinct (map fst (d @ e)) \<Longrightarrow> dict_merge d e = d @ e"
proof (induction e arbitrary: d)
  case Nil
  show ?case by (simp add: dict_merge_def)
next
  case (Cons kv e)
  obtain k v where kv: "kv = (k, v)" by (cases kv)
  have "dict_set d k v = d @ [(k, v)]"
    using Cons.prems kv by (intro dict_set_fresh) auto
  moreover have "dict_merge (d @ [(k, v)]) e = (d @ [(k, v)]) @ e"
    using Cons.prems kv by (intro Cons.IH) simp
  ultimately show ?case
    by (simp add: dict_merge_def kv)
qed

lemma dict_of_pairs_distinct: "distinct (map fst d) \<Longrightarrow> dict_of_pairs d = d"
  using dict_merge_distinct [of "[]" d] by (simp add: dict_of_pairs_def)

lemma reads_back_wf: "reads_back P v \<Longrightarrow> wf_value v"
  by (simp add: reads_back_def)

lemma foldr_max_le: "foldr max (map f xs) 0 \<le> (m::nat) \<longleftrightarrow> (\<forall>x \<in> set xs. f x \<le> m)"
  by (induction xs) auto

lemma fits_PList: "fits P n (PList xs) \<longleftrightarrow> n \<noteq> 0 \<and> (\<forall>x \<in> set xs. fits P (n - 1) x)"
  by (cases n) (auto simp: fits_def foldr_max_le)

lemma fits_PDict:
  "fits P n (PDict d) \<longleftrightarrow> n \<noteq> 0 \<and> (\<forall>kv \<in> set d. fits P (n - 1) (snd kv))"
  by (cases n) (auto simp: fits_def foldr_max_le)

lemma fits_PInt: "fits P n (PInt i) \<longleftrightarrow> \<not> too_many_digits P (int_digits i)"
  by (simp add: fits_def)

lemma scan_once_json_text:
  "reads_back P v \<Longrightarrow> fits P n v \<Longrightarrow> delim rest \<Longrightarrow>
   scan_once P n (json_text v @ rest) = Some (v, rest)"
proof (induction v arbitrary: rest n)
  case PNone
  show ?case by (simp add: scan_once_PNone)
next
  case (PBool b)
  show ?case by (simp add: scan_once_True scan_once_False)
next
  case (PInt i)
  then show ?case by (simp add: scan_once_PInt fits_PInt)
next
  case (PFloat f)
  then show ?case by (simp add: scan_once_PFloat)
next
  case (PStr s)
  then show ?case by (simp add: scan_once_PStr reads_back_def)
next
  case (PList xs)
  obtain m where n: "n = Suc m" and ft: "\<And>x. x \<in> set xs \<Longrightarrow> fits P m x"
    using PList.prems(2) by (cases n) (simp_all add: fits_PList)
  show ?case
  proof (cases xs)
    case Nil
    show ?thesis
      unfolding Nil n by (subst scan_once.simps) (simp add: skip_ws_Cons)
  next
    case (Cons y ys)
    define t where "t = join (lit '', '') (map json_text (y # ys)) @ 93 # rest"
    have rb: "\<And>x. x \<in> set (y # ys) \<Longrightarrow> reads_back P x"
      using PList.prems(1) Cons by (auto simp: reads_back_PList)
    have items: "parse_array P m t = Some (y # ys, rest)"
      unfolding t_def
    proof (rule parse_array_items)
      fix x r assume "x \<in> set (y # ys)" "delim r"
      then show "scan_once P m (json_text x @ r) = Some (x, r)"
        using PList.IH [of x m r] rb ft Cons by simp
    next
      fix x assume "x \<in> set (y # ys)"
      then show "starts_value (json_text x)"
        using rb reads_back_wf starts_value_json_text by blast
    qed
    have "starts_value (json_text y)"
      using rb [of y] reads_back_wf starts_value_json_text by auto
    then have st: "starts_value t"
      unfolding t_def by (simp add: join_Cons starts_value_append)
    then obtain c t' where ct: "t = c # t'" "c \<noteq> 93"
      by (cases t) (auto simp: starts_value_def)
    have sk: "skip_ws t = c # t'"
      using skip_ws_starts_value [OF st] ct by simp
    have "scan_once P n (91 # t) = Some (PList (y # ys), rest)"
      unfolding n by (subst scan_once.simps) (simp add: sk ct(2) items [unfolded ct(1)])
    moreover have "json_text (PList xs) @ rest = 91 # t"
      unfolding t_def Cons by simp
    ultimately show ?thesis by (simp only: Cons)
  qed
next
  case (PDict d)
  obtain m where n: "n = Suc m" and ft: "\<And>kv. kv \<in> set d \<Longrightarrow> fits P m (snd kv)"
    using PDict.prems(2) by (cases n) (simp_all add: fits_PDict)
  show ?case
  proof (cases d)
    case Nil
    show ?thesis
      unfolding Nil n by (subst scan_once.simps) (simp add: skip_ws_Cons)
  next
    case (Cons y ys)
    define t where "t = item_tail y @ (case ys of [] \<Rightarrow> [] | _ \<Rightarrow>
        lit '', '' @ join (lit '', '') (map (\<lambda>kv. 34 # item_tail kv) ys)) @ 125 # rest"
    have rb: "distinct (map fst d)"
      "\<And>kv. kv \<in> set (y # ys) \<Longrightarrow>
         wf_str (fst kv) \<and> no_surrogate_pair (fst kv) \<and> reads_back P (snd kv)"
      using PDict.prems(1) Cons by (auto simp: reads_back_PDict)
    have items: "parse_object P m t = Some (y # ys, rest)"
      unfolding t_def
    proof (rule parse_object_items)
      fix kv r assume kv: "kv \<in> set (y # ys)" and "delim r"
      moreover have "snd kv \<in> Basic_BNFs.snds kv" by (cases kv) simp
      ultimately show "scan_once P m (json_text (snd kv) @ r) = Some (snd kv, r)"
        using PDict.IH [of kv "snd kv" m r] rb(2) [OF kv] ft [of kv] Cons by simp
    next
      fix kv assume "kv \<in> set (y # ys)"
      then show "starts_value (json_text (snd kv))"
        using rb(2) reads_back_wf starts_value_json_text by blast
    next
      fix kv assume "kv \<in> set (y # ys)"
      then show "wf_str (fst kv) \<and> no_surrogate_pair (fst kv)"
        using rb(2) by simp
    qed
    have sk: "skip_ws (34 # t) = 34 # t"
      by (simp add: skip_ws_Cons)
    have "scan_once P n (123 # 34 # t) = Some (PDict (dict_of_pairs (y # ys)), rest)"
      unfolding n by (subst scan_once.simps) (simp add: sk items)
    moreover have "dict_of_pairs (y # ys) = y # ys"
      using rb(1) Cons by (intro dict_of_pairs_distinct) simp
    moreover have "json_text (PDict d) @ rest = 123 # 34 # t"
      unfolding t_def Cons by (cases ys) (simp_all add: item_eq)
    ultimately show ?thesis by (simp only: Cons)
  qed
qed

lemma json_loads_json_text:
  assumes "reads_back P v" and "within_limits P c v"
  shows "json_loads P c (json_text v) = Some v"
proof -
  have "skip_ws (json_text v) = json_text v"
    using assms(1) by (intro skip_ws_starts_value starts_value_json_text reads_back_wf)
  moreover have "scan_once P (Suc (json_room P c)) (json_text v) = Some (v, [])"
    using scan_once_json_text [OF assms(1) assms(2) [unfolded within_limits_def], of "[]"]
    by simp
  ultimately show ?thesis
    by (simp add: json_loads_def skip_ws_Nil)
qed

section \<open>Round trip of a frame\<close>

definition surrogate_string :: pyval where
  "surrogate_string = PStr [55357, 56832]"

lemma reads_back_ten_to: "reads_back P (ten_to k)"
  by (simp add: reads_back_def ten_to_def)

lemma reads_back_nested: "reads_back P (nested n)"
  by (induction n) (simp_all add: reads_back_def)

text \<open>
  C1, as the code has it. A value that is well formed, has no string with a high
  surrogate immediately before a low one, has only floats that the platform converts
  back from their \<open>repr\<close>, is within the limits of the interpreter both where it is
  written and where it is read (its arrays and objects are not nested deeper than the
  recursion limit allows, and none of its integers has more digits than the interpreter
  converts between \<open>int\<close> and \<open>str\<close>), and whose JSON text is shorter than
  \<open>2^32\<close> bytes: the frame that \<open>send_message\<close> writes for it is read by
  \<open>read_message\<close> as the same value, and what follows the frame in the stream is left
  for the next read.
\<close>

theorem frame_round_trip:
  assumes "reads_back P v"
    and "within_limits P SendMessage v" and "within_limits P ReadMessage v"
    and "length (json_text v) < 2 ^ 32"
  shows "read_message P (delivered (send_message P v \<lparr>delivered = [], pending = []\<rparr>) @ rest)
         = (Returned v, rest)"
proof -
  define payload :: bytes where "payload = map of_nat (json_text v)"
  have w: "wf_value v" using assms(1) by (rule reads_back_wf)
  from send_message_writes [OF w assms(2) assms(4), of "\<lparr>delivered = [], pending = []\<rparr>"]
  obtain header where h: "length header = 4"
      "struct_unpack_I P header = Some (length (json_text v))"
      "send_message P v \<lparr>delivered = [], pending = []\<rparr>
         = \<lparr>delivered = header @ payload, pending = []\<rparr>"
    unfolding payload_def by auto
  have n: "length payload = length (json_text v)"
    by (simp add: payload_def)
  have d: "utf8_decode payload = Some (json_text v)"
    unfolding payload_def using w by (intro utf8_decode_ascii ascii_json_text)
  have "header \<noteq> []" using h(1) by auto
  then show ?thesis
    using h n d json_loads_json_text [OF assms(1) assms(3)]
    by (simp add: read_message_def Let_def)
qed

theorem frame_round_trip_witness:
  "reads_back example_platform
     (PDict [(lit ''type'', PStr (lit ''pong'')),
             (lit ''echo'', PList [PFloat (FFinite (lit ''1.5'')), PStr [233], PNone])]) \<and>
   within_limits example_platform SendMessage
     (PDict [(lit ''type'', PStr (lit ''pong'')),
             (lit ''echo'', PList [PFloat (FFinite (lit ''1.5'')), PStr [233], PNone])]) \<and>
   within_limits example_platform ReadMessage
     (PDict [(lit ''type'', PStr (lit ''pong'')),
             (lit ''echo'', PList [PFloat (FFinite (lit ''1.5'')), PStr [233], PNone])]) \<and>
   read_message example_platform
     ([47, 0, 0, 0]
      @ bytes_of ''{\"type\": \"pong\", \"echo\": [1.5, \"'' @ [92] @ bytes_of ''u00e9\", null]}'')
   = (Returned
        (PDict [(lit ''type'', PStr (lit ''pong'')),
                (lit ''echo'', PList [PFloat (FFinite (lit ''1.5'')), PStr [233], PNone])]),
      [])"
proof -
  define v where "v = PDict [(lit ''type'', PStr (lit ''pong'')),
                    (lit ''echo'', PList [PFloat (FFinite (lit ''1.5'')), PStr [233], PNone])]"
  have r: "reads_back example_platform v"
    unfolding v_def by code_simp
  have i: "within_limits example_platform SendMessage v"
    unfolding v_def by code_simp
  have j: "within_limits example_platform ReadMessage v"
    unfolding v_def by code_simp
  have l: "length (json_text v) < 2 ^ 32"
    unfolding v_def by code_simp
  have s: "delivered (send_message example_platform v \<lparr>delivered = [], pending = []\<rparr>) =
      [47, 0, 0, 0]
      @ bytes_of ''{\"type\": \"pong\", \"echo\": [1.5, \"'' @ [92] @ bytes_of ''u00e9\", null]}''"
    unfolding v_def by code_simp
  have "read_message example_platform
          (delivered (send_message example_platform v \<lparr>delivered = [], pending = []\<rparr>))
        = (Returned v, [])"
    using frame_round_trip [OF r i j l, of "[]"] by simp
  then have "read_message example_platform
      ([47, 0, 0, 0]
       @ bytes_of ''{\"type\": \"pong\", \"echo\": [1.5, \"'' @ [92] @ bytes_of ''u00e9\", null]}'')
      = (Returned v, [])"
    unfolding s .
  with r i j show ?thesis
    unfolding v_def by blast
qed

theorem frame_round_trip_counterexample:
  "wf_value surrogate_string \<and>
   read_message example_platform
     (delivered (send_message example_platform surrogate_string empty_stdout))
   = (Returned (PStr [128512]), []) \<and>
   wf_value four_gigabytes \<and>
   read_message example_platform
     (delivered (send_message example_platform four_gigabytes empty_stdout))
   = (SystemExit 0, []) \<and>
   reads_back example_platform (ten_to 4300) \<and>
   read_message example_platform
     (delivered (send_message example_platform (ten_to 4300) empty_stdout))
   = (SystemExit 0, []) \<and>
   reads_back example_platform (nested 1999) \<and>
   read_message example_platform
     (delivered (send_message example_platform (nested 1999) empty_stdout))
   = (SystemExit 0, [])"
proof -
  have a: "wf_value surrogate_string"
    by code_simp
  have b: "read_message example_platform
     (delivered (send_message example_platform surrogate_string empty_stdout))
     = (Returned (PStr [128512]), [])"
    by code_simp
  have c: "wf_value four_gigabytes"
    by (simp add: four_gigabytes_def wf_str_def)
  have d: "read_message example_platform
     (delivered (send_message example_platform four_gigabytes empty_stdout)) = (SystemExit 0, [])"
    by (simp add: four_gigabytes_not_sent empty_stdout_def read_message_def)
  have "too_many_digits example_platform (Suc 4300)"
    by (simp add: too_many_digits_def example_platform_def)
  then have "send_message example_platform (ten_to 4300) empty_stdout = empty_stdout"
    by (rule ten_to_not_sent)
  then have e: "read_message example_platform
     (delivered (send_message example_platform (ten_to 4300) empty_stdout)) = (SystemExit 0, [])"
    by (simp add: empty_stdout_def read_message_def)
  have "json_room example_platform SendMessage < 1999"
    by (simp add: example_platform_def)
  then have "send_message example_platform (nested 1999) empty_stdout = empty_stdout"
    by (rule nested_not_sent)
  then have f: "read_message example_platform
     (delivered (send_message example_platform (nested 1999) empty_stdout)) = (SystemExit 0, [])"
    by (simp add: empty_stdout_def read_message_def)
  have g: "reads_back example_platform (ten_to 4300)"
    by (rule reads_back_ten_to)
  have h: "reads_back example_platform (nested 1999)"
    by (rule reads_back_nested)
  from a b c d e f g h show ?thesis by blast
qed

section \<open>The length tests of the parser\<close>

text \<open>
  \<open>parse_array\<close> and \<open>parse_object\<close> compare the length of what \<open>scan_once\<close>
  leaves with the length of their input, which makes their termination evident. The
  tests never fail: a successful scan consumes at least one character, so the functions
  satisfy the equations without the tests.
\<close>

lemma match_int_nonempty: "match_int s = Some (ds, r) \<Longrightarrow> ds \<noteq> []"
  by (auto simp: match_int_def split: list.splits if_splits)

lemma match_number_length: "match_number s = Some (i, f, e, r) \<Longrightarrow> length r < length s"
proof -
  assume a: "match_number s = Some (i, f, e, r)"
  then have "s = i @ f @ e @ r" using match_number_parts by blast
  moreover from a have "i \<noteq> []"
    by (auto simp: match_number_def split: prod.splits option.splits dest: match_int_nonempty)
  ultimately show ?thesis
    by (cases i) simp_all
qed

lemma take_lit_length: "take n s = lit a \<Longrightarrow> a \<noteq> [] \<Longrightarrow> length (drop n s) < length s"
  by (cases s; cases n) (auto simp: lit_def)

lemma scan_atom_length: "scan_atom P s = Some (v, r) \<Longrightarrow> length r < length s"
  by (auto simp: scan_atom_def split: if_splits option.splits
      dest!: match_number_length intro!: take_lit_length)


lemma parser_consumes:
  "scan_once P n s = Some (v, r) \<longrightarrow> length r < length s"
  "parse_array P n s = Some (vs, r) \<longrightarrow> length r < length s"
  "parse_object P n s = Some (kvs, r) \<longrightarrow> length r < length s"
proof (induction P n s and P n s and P n s arbitrary: v r and vs r and kvs r
    rule: scan_once_parse_array_parse_object.induct)
  case (1 P n s)
  show ?case
  proof
    assume a: "scan_once P n s = Some (v, r)"
    then obtain c t where s: "s = c # t"
      by (cases s) (simp_all add: scan_once.simps)
    consider (str) "c = 34" | (obj) "c \<noteq> 34" "c = 123" | (arr) "c \<noteq> 34" "c \<noteq> 123" "c = 91"
      | (atom) "c \<noteq> 34" "c \<noteq> 123" "c \<noteq> 91"
      by blast
    then show "length r < length s"
    proof cases
      case str
      with a s obtain x where "scanstring t = Some (x, r)"
        by (subst (asm) scan_once.simps) (auto split: option.splits)
      then show ?thesis using scanstring_length s by fastforce
    next
      case obj
      with a s have n0: "n \<noteq> 0"
        by (subst (asm) scan_once.simps) (auto split: if_splits)
      with a s obj obtain c' t' where k: "skip_ws t = c' # t'"
        by (subst (asm) scan_once.simps) (auto split: list.splits)
      have lt: "length t' < length t" using skip_ws_Cons_length [OF k] .
      show ?thesis
      proof (cases "c' = 125")
        case True
        with a s obj n0 k have "r = t'"
          by (subst (asm) scan_once.simps) simp
        then show ?thesis using lt s by simp
      next
        case False
        with a s obj n0 k obtain pairs where c34: "c' = 34"
          and p: "parse_object P (n - 1) t' = Some (pairs, r)"
          by (subst (asm) scan_once.simps) (auto split: if_splits option.splits)
        have "length r < length t'"
          using "1.IH"(1) [OF s obj(1) obj(2) n0 k False c34] p by blast
        then show ?thesis using lt s by simp
      qed
    next
      case arr
      with a s have n0: "n \<noteq> 0"
        by (subst (asm) scan_once.simps) (auto split: if_splits)
      with a s arr obtain c' t' where k: "skip_ws t = c' # t'"
        by (subst (asm) scan_once.simps) (auto split: list.splits)
      have lt: "length t' < length t" using skip_ws_Cons_length [OF k] .
      show ?thesis
      proof (cases "c' = 93")
        case True
        with a s arr n0 k have "r = t'"
          by (subst (asm) scan_once.simps) simp
        then show ?thesis using lt s by simp
      next
        case False
        with a s arr n0 k obtain vals where
          p: "parse_array P (n - 1) (skip_ws t) = Some (vals, r)"
          by (subst (asm) scan_once.simps) (auto split: if_splits option.splits)
        have "length r < length (skip_ws t)"
          using "1.IH"(2) [OF s arr(1) arr(2) arr(3) n0 k False] p by blast
        then show ?thesis using skip_ws_length [of t] s by simp
      qed
    next
      case atom
      with a s have "scan_atom P s = Some (v, r)"
        by (subst (asm) scan_once.simps) simp
      then show ?thesis by (rule scan_atom_length)
    qed
  qed
next
  case (2 P n s)
  show ?case
  proof
    assume a: "parse_array P n s = Some (vs, r)"
    then obtain v r1 where sc: "scan_once P n s = Some (v, r1)"
      by (subst (asm) parse_array.simps) (auto split: option.splits)
    have l1: "length r1 < length s" using "2.IH"(1) sc by blast
    then have g: "\<not> length s < length r1" by simp
    from a sc g obtain c t where k: "skip_ws r1 = c # t"
      by (subst (asm) parse_array.simps) (auto split: list.splits)
    have lt: "length t < length r1" using skip_ws_Cons_length [OF k] .
    show "length r < length s"
    proof (cases "c = 93")
      case True
      with a sc g k have "r = t"
        by (subst (asm) parse_array.simps) simp
      then show ?thesis using lt l1 by simp
    next
      case False
      with a sc g k obtain vs' where c44: "c = 44" and p: "parse_array P n (skip_ws t) = Some (vs', r)"
        by (subst (asm) parse_array.simps) (auto split: if_splits option.splits)
      have "length r < length (skip_ws t)"
        using "2.IH"(2) [OF sc refl g k False c44] p by blast
      then show ?thesis using skip_ws_length [of t] lt l1 by simp
    qed
  qed
next
  case (3 P n s)
  show ?case
  proof
    assume a: "parse_object P n s = Some (kvs, r)"
    note u0 = a [unfolded parse_object.simps [of P n s]]
    obtain key r0 where ks: "scanstring s = Some (key, r0)"
      using u0 by (cases "scanstring s") auto
    have l0: "length r0 < length s" using scanstring_length [OF ks] .
    note u1 = u0 [unfolded ks, simplified]
    obtain c t where k: "skip_ws r0 = c # t"
      using u1 by (cases "skip_ws r0") simp_all
    have lt: "length t < length r0" using skip_ws_Cons_length [OF k] .
    note u2 = u1 [unfolded k, simplified]
    have c58: "c = 58"
      using u2 by (cases "c = 58") simp_all
    then have n58: "\<not> c \<noteq> 58" by simp
    note u3 = u2 [unfolded c58, simplified]
    obtain v r2 where sc: "scan_once P n (skip_ws t) = Some (v, r2)"
      using u3 by (cases "scan_once P n (skip_ws t)") auto
    have "length r2 < length (skip_ws t)"
      using "3.IH"(1) [OF ks refl k n58] sc by blast
    then have l2: "length r2 < length t" using skip_ws_length [of t] by simp
    then have g: "\<not> length s < length r2" using lt l0 by simp
    note u4 = u3 [unfolded sc, simplified, unfolded if_not_P [OF g]]
    obtain c2 t2 where k2: "skip_ws r2 = c2 # t2"
      using u4 by (cases "skip_ws r2") simp_all
    have lt2: "length t2 < length r2" using skip_ws_Cons_length [OF k2] .
    note u5 = u4 [unfolded k2, simplified]
    show "length r < length s"
    proof (cases "c2 = 125")
      case True
      with u5 have "r = t2" by simp
      then show ?thesis using lt2 l2 lt l0 by simp
    next
      case False
      have c44: "c2 = 44"
        using u5 False by (cases "c2 = 44") simp_all
      note u6 = u5 [unfolded c44, simplified]
      obtain c3 t3 where k3: "skip_ws t2 = c3 # t3"
        using u6 by (cases "skip_ws t2") simp_all
      have lt3: "length t3 < length t2" using skip_ws_Cons_length [OF k3] .
      note u7 = u6 [unfolded k3, simplified]
      have c34: "c3 = 34"
        using u7 by (cases "c3 = 34") simp_all
      note u8 = u7 [unfolded c34, simplified]
      obtain kvs' where p: "parse_object P n t3 = Some (kvs', r)"
        using u8 by (cases "parse_object P n t3") auto
      have "length r < length t3"
        using "3.IH"(2) [OF ks refl k n58 sc refl g k2 False c44 k3 c34] p by blast
      then show ?thesis using lt3 lt2 l2 lt l0 by simp
    qed
  qed
qed

lemma parse_array_plain:
  "parse_array P n s =
    (case scan_once P n s of
       None \<Rightarrow> None
     | Some (v, r) \<Rightarrow>
         (case skip_ws r of
            [] \<Rightarrow> None
          | c # t \<Rightarrow>
              if c = 93 then Some ([v], t)
              else if c = 44 then
                (case parse_array P n (skip_ws t) of
                   None \<Rightarrow> None
                 | Some (vs, r') \<Rightarrow> Some (v # vs, r'))
              else None))"
proof (cases "scan_once P n s")
  case None
  then show ?thesis by (subst parse_array.simps) simp
next
  case (Some x)
  obtain v r where x: "x = (v, r)" by (cases x)
  have "\<not> length s < length r"
    using parser_consumes(1) [of P n s v r] Some x by simp
  then show ?thesis
    using Some x by (subst parse_array.simps) simp
qed

lemma parse_object_value_plain:
  assumes "scanstring s = Some (key, r)" and "skip_ws r = 58 # t"
    and "scan_once P n (skip_ws t) = Some (v, r2)"
  shows "\<not> length s < length r2"
proof -
  have "length r2 < length (skip_ws t)"
    using parser_consumes(1) [of P n "skip_ws t" v r2] assms(3) by simp
  moreover have "length (skip_ws t) \<le> length t" by (rule skip_ws_length)
  moreover have "length t < length r" using skip_ws_Cons_length [OF assms(2)] .
  moreover have "length r < length s" using scanstring_length [OF assms(1)] .
  ultimately show ?thesis by simp
qed

end
